theory Spec2Isabelle
  imports Complex_Main "HOL-Library.Sublist" "HOL-Library.Char_ord" "HOL-Library.List_Lexorder"
begin

section \<open>Signal fusion engine (signal\_generator.py)\<close>

text \<open>
  Python floats are modelled as \<^typ>\<open>real\<close>: sums, products and comparisons are exact.
  Signals and sentiment labels stay strings, as the code compares them with \<open>==\<close> and
  never checks that they belong to a fixed set.  A query that raises inside sqlite3 is the
  value \<open>None\<close>; the rows it returns otherwise are listed newest first, as
  \<open>ORDER BY timestamp DESC\<close> delivers them.
\<close>

type_synonym symbol = string

record technical_row =
  ta_id :: int
  ta_symbol :: symbol
  ta_timestamp :: string
  ta_close_price :: real
  ta_overall_signal :: string
  ta_signal_strength :: real

text \<open>A row of the join of \<open>sentiment_results\<close> with \<open>news_data\<close>.\<close>

record sentiment_row =
  sr_news_id :: int
  sr_symbol :: symbol
  sr_negative_score :: real
  sr_neutral_score :: real
  sr_positive_score :: real
  sr_dominant_sentiment :: string
  sr_confidence :: real
  nd_title :: string
  nd_summary :: string

record market_db =
  technical_query :: "symbol \<Rightarrow> technical_row list option"
  sentiment_query :: "symbol \<Rightarrow> sentiment_row list option"

record technical =
  t_id :: int
  t_symbol :: symbol
  t_timestamp :: string
  t_close_price :: real
  t_overall_signal :: string
  t_signal_strength :: real

record sentiment =
  s_symbol :: symbol
  s_avg_negative :: real
  s_avg_neutral :: real
  s_avg_positive :: real
  s_dominant_sentiment :: string
  s_confidence :: real
  s_latest_news_id :: int
  s_latest_news_title :: string
  s_latest_news_summary :: string

text \<open>\<open>_get_latest_technical_analysis\<close>: \<open>LIMIT 1\<close> and \<open>fetchone\<close>.\<close>

definition get_latest_technical_analysis :: "market_db \<Rightarrow> symbol \<Rightarrow> technical option" where
  "get_latest_technical_analysis db smb =
     (case technical_query db smb of
        None \<Rightarrow> None
      | Some [] \<Rightarrow> None
      | Some (row # _) \<Rightarrow>
          Some \<lparr>t_id = ta_id row, t_symbol = ta_symbol row, t_timestamp = ta_timestamp row,
                t_close_price = ta_close_price row, t_overall_signal = ta_overall_signal row,
                t_signal_strength = ta_signal_strength row\<rparr>)"

text \<open>
  Python's \<open>max(d, key=d.get)\<close> walks the keys in insertion order and replaces the
  running best only when a key's value is strictly greater.
\<close>

fun max_from :: "'k \<Rightarrow> real \<Rightarrow> ('k \<times> real) list \<Rightarrow> 'k" where
  "max_from best bv [] = best"
| "max_from best bv ((k, v) # kvs) =
     (if v > bv then max_from k v kvs else max_from best bv kvs)"

definition lookup_score :: "(string \<times> real) list \<Rightarrow> string \<Rightarrow> real" where
  "lookup_score kvs k = (case map_of kvs k of Some v \<Rightarrow> v | None \<Rightarrow> 0)"

definition dominant_of :: "real \<Rightarrow> real \<Rightarrow> real \<Rightarrow> string" where
  "dominant_of neg neu pos =
     max_from ''negative'' neg [(''neutral'', neu), (''positive'', pos)]"

text \<open>\<open>_get_latest_sentiment\<close>: the average of the newest five joined rows.\<close>

definition get_latest_sentiment :: "market_db \<Rightarrow> symbol \<Rightarrow> sentiment option" where
  "get_latest_sentiment db smb =
     (case sentiment_query db smb of
        None \<Rightarrow> None
      | Some allrows \<Rightarrow>
          (let rows = take 5 allrows in
           case rows of
             [] \<Rightarrow> None
           | latest # _ \<Rightarrow>
               (let avg_negative = sum_list (map sr_negative_score rows) / real (length rows);
                    avg_neutral = sum_list (map sr_neutral_score rows) / real (length rows);
                    avg_positive = sum_list (map sr_positive_score rows) / real (length rows);
                    scores = [(''negative'', avg_negative), (''neutral'', avg_neutral),
                              (''positive'', avg_positive)];
                    dominant = dominant_of avg_negative avg_neutral avg_positive
                in Some \<lparr>s_symbol = smb, s_avg_negative = avg_negative,
                         s_avg_neutral = avg_neutral, s_avg_positive = avg_positive,
                         s_dominant_sentiment = dominant,
                         s_confidence = lookup_score scores dominant,
                         s_latest_news_id = sr_news_id latest,
                         s_latest_news_title = nd_title latest,
                         s_latest_news_summary = nd_summary latest\<rparr>)))"

definition map_sentiment_to_signal :: "string \<Rightarrow> string" where
  "map_sentiment_to_signal s =
     (if s = ''positive'' then ''BUY''
      else if s = ''negative'' then ''SELL''
      else ''NEUTRAL'')"

text \<open>The \<open>if\<close>/\<open>elif\<close> chain of \<open>generate_signals\<close> that fuses the two signals.\<close>

definition combine :: "string \<Rightarrow> real \<Rightarrow> string \<Rightarrow> real \<Rightarrow> string \<times> real" where
  "combine tech_signal tech_strength sent_signal sent_strength =
     (if tech_signal = sent_signal \<and> tech_signal \<noteq> ''NEUTRAL''
        then (tech_signal, (tech_strength + sent_strength) / 2)
      else if tech_signal \<noteq> ''NEUTRAL'' \<and> sent_signal \<noteq> ''NEUTRAL'' \<and> tech_signal \<noteq> sent_signal
        then (''NEUTRAL'', max tech_strength sent_strength)
      else if tech_signal \<noteq> ''NEUTRAL''
        then (tech_signal, tech_strength * 0.7 + sent_strength * 0.3)
      else if sent_signal \<noteq> ''NEUTRAL''
        then (sent_signal, sent_strength * 0.6 + tech_strength * 0.4)
      else (''NEUTRAL'', (tech_strength + sent_strength) / 2))"

fun join_und :: "string list \<Rightarrow> string" where
  "join_und [] = ''''"
| "join_und [r] = r"
| "join_und (r # rs) = r @ '' und '' @ join_und rs"

definition generate_reason :: "string \<Rightarrow> string \<Rightarrow> sentiment option \<Rightarrow> string" where
  "generate_reason tech_signal sent_signal sentiment =
     (let reasons1 =
            (if tech_signal = ''BUY''
               then [''Technische Indikatoren zeigen einen Aufw'' @ [CHR 0xC3, CHR 0xA4] @ ''rtstrend'']
             else if tech_signal = ''SELL''
               then [''Technische Indikatoren zeigen einen Abw'' @ [CHR 0xC3, CHR 0xA4] @ ''rtstrend'']
             else []);
          reasons2 =
            (case sentiment of
               None \<Rightarrow> []
             | Some s \<Rightarrow>
                 (if sent_signal = ''BUY''
                    then [''Positive Nachrichten: '' @ s_latest_news_title s]
                  else if sent_signal = ''SELL''
                    then [''Negative Nachrichten: '' @ s_latest_news_title s]
                  else []))
      in join_und (reasons1 @ reasons2))"

record signal =
  sig_symbol :: symbol
  sig_timestamp :: string
  sig_signal_type :: string
  sig_confidence :: real
  sig_close_price :: real
  sig_technical_signal :: string
  sig_technical_strength :: real
  sig_sentiment_signal :: string
  sig_sentiment_strength :: real
  sig_reason :: string

text \<open>The signal and strength the sentiment side contributes (lines 173 to 178).\<close>

definition sentiment_side :: "sentiment option \<Rightarrow> string \<times> real" where
  "sentiment_side sentiment =
     (case sentiment of
        Some s \<Rightarrow> (map_sentiment_to_signal (s_dominant_sentiment s), s_confidence s)
      | None \<Rightarrow> (''NEUTRAL'', 0.5))"

text \<open>
  One pass of the loop body of \<open>generate_signals\<close> for one symbol: \<open>None\<close> when the
  body reaches \<open>continue\<close> or falls through the confidence test without appending.
\<close>

definition generate_one :: "market_db \<Rightarrow> real \<Rightarrow> string \<Rightarrow> symbol \<Rightarrow> signal option" where
  "generate_one db confidence_threshold now smb =
     (let technical = get_latest_technical_analysis db smb;
          sentiment = get_latest_sentiment db smb
      in case technical of
           None \<Rightarrow> None
         | Some t \<Rightarrow>
             (let tech_signal = t_overall_signal t;
                  tech_strength = t_signal_strength t;
                  (sent_signal, sent_strength) = sentiment_side sentiment;
                  (combined_signal, combined_strength) =
                     combine tech_signal tech_strength sent_signal sent_strength
              in if combined_strength \<ge> confidence_threshold
                 then Some \<lparr>sig_symbol = smb, sig_timestamp = now,
                            sig_signal_type = combined_signal,
                            sig_confidence = combined_strength,
                            sig_close_price = t_close_price t,
                            sig_technical_signal = tech_signal,
                            sig_technical_strength = tech_strength,
                            sig_sentiment_signal = sent_signal,
                            sig_sentiment_strength = sent_strength,
                            sig_reason = generate_reason tech_signal sent_signal sentiment\<rparr>
                 else None))"

fun generate_loop :: "market_db \<Rightarrow> real \<Rightarrow> string \<Rightarrow> symbol list \<Rightarrow> signal list \<Rightarrow> signal list" where
  "generate_loop db thr now [] signals = signals"
| "generate_loop db thr now (smb # smbs) signals =
     (case generate_one db thr now smb of
        None \<Rightarrow> generate_loop db thr now smbs signals
      | Some sg \<Rightarrow> generate_loop db thr now smbs (signals @ [sg]))"

definition generate_signals :: "market_db \<Rightarrow> real \<Rightarrow> string \<Rightarrow> symbol list \<Rightarrow> signal list" where
  "generate_signals db confidence_threshold now symbols =
     generate_loop db confidence_threshold now symbols []"

text \<open>
  The table \<open>trading_signals\<close>.  \<open>save_signals\<close> inserts one row per signal with the
  column defaults \<open>notified = 0\<close>, \<open>verified = 0\<close>, \<open>outcome = NULL\<close>; the key is assigned
  by \<open>AUTOINCREMENT\<close>.  When sqlite3 raises, nothing is committed.
\<close>

record trading_signal =
  ts_id :: nat
  ts_symbol :: symbol
  ts_timestamp :: string
  ts_signal_type :: string
  ts_confidence :: real
  ts_close_price :: real
  ts_technical_signal :: string
  ts_sentiment_signal :: string
  ts_reason :: string
  ts_notified :: bool
  ts_verified :: bool
  ts_outcome :: "string option"

record signal_table =
  rows :: "trading_signal list"
  next_id :: nat





text \<open>
  Specification side of the fusion claims: the pair (combined signal, combined strength)
  that the loop body computes for a symbol, and the test the confidence gate applies to it.
\<close>

definition fused :: "market_db \<Rightarrow> symbol \<Rightarrow> (string \<times> real) option" where
  "fused db smb =
     (case get_latest_technical_analysis db smb of
        None \<Rightarrow> None
      | Some t \<Rightarrow>
          Some (combine (t_overall_signal t) (t_signal_strength t)
                  (fst (sentiment_side (get_latest_sentiment db smb)))
                  (snd (sentiment_side (get_latest_sentiment db smb)))))"

definition passes_gate :: "market_db \<Rightarrow> real \<Rightarrow> symbol \<Rightarrow> bool" where
  "passes_gate db thr smb =
     (case fused db smb of None \<Rightarrow> False | Some (cs, cst) \<Rightarrow> cst \<ge> thr)"


section \<open>Sentiment analyzer (sentiment\_analyzer.py)\<close>

text \<open>
  The dictionary \<open>analyze_text\<close> returns.  Its \<open>scores\<close> entry always has exactly the
  three keys of \<open>self.labels\<close>, in that order.  The classifier itself (tokenizer and
  model) is outside the repository: it enters as a function from the text to the
  dictionary, \<open>None\<close> when \<open>analyze_text\<close> catches an exception.
\<close>

record text_sentiment =
  score_negative :: real
  score_neutral :: real
  score_positive :: real
  dominant_sentiment :: string
  confidence :: real


text \<open>
  A news item as \<open>fetch_unprocessed_news\<close> builds it, and an entry of the result list of
  \<open>process_news_batch\<close>.
\<close>

record news_item =
  news_id :: int
  news_timestamp :: string
  news_symbol :: symbol
  news_title :: string
  news_summary :: string
  news_url :: string

record scored =
  res_id :: int
  res_symbol :: symbol
  res_sentiment :: text_sentiment

record stored_sentiment =
  st_symbol :: symbol
  st_negative_score :: real
  st_neutral_score :: real
  st_positive_score :: real
  st_dominant_sentiment :: string
  st_confidence :: real
  st_timestamp :: string

datatype os_signal = SIGINT | SIGTERM

text \<open>
  What one pass of the main loop reads from outside: the table \<open>news_data\<close> and whether
  the query on it succeeds, the classifier, the operating-system signal (if any) that
  has been delivered when the pause test before batch number \<open>k\<close> runs, whether the
  store accepts the results, whether the checkpoint files can be written, and the clock.
\<close>

record environment =
  news_data :: "news_item list"
  fetch_ok :: bool
  classifier :: "string \<Rightarrow> text_sentiment option"
  arriving :: "nat \<Rightarrow> os_signal option"
  store_ok :: bool
  file_ok :: bool
  clock :: string

text \<open>
  The processor with its analyzer: the two \<open>current_state\<close> dictionaries, the two
  events, the two checkpoint files and the table \<open>sentiment_results\<close>.
\<close>

record processor =
  last_news_id :: int
  last_run :: "string option"
  last_processed_id :: int
  pause_event :: bool
  shutdown_flag :: bool
  processor_checkpoint :: "(int \<times> string option) option"
  sentiment_checkpoint :: "int option"
  sentiment_results :: "int \<Rightarrow> stored_sentiment option"

datatype error = ValueError

definition analyzer_save_checkpoint :: "environment \<Rightarrow> processor \<Rightarrow> processor" where
  "analyzer_save_checkpoint env st =
     (if file_ok env then st\<lparr>sentiment_checkpoint := Some (last_processed_id st)\<rparr> else st)"

definition save_checkpoint :: "bool \<Rightarrow> processor \<Rightarrow> processor" where
  "save_checkpoint ok st =
     (if ok then st\<lparr>processor_checkpoint := Some (last_news_id st, last_run st)\<rparr> else st)"

definition handle_interrupt :: "processor \<Rightarrow> processor" where
  "handle_interrupt st = st\<lparr>pause_event := True\<rparr>"

definition handle_terminate :: "processor \<Rightarrow> processor" where
  "handle_terminate st = st\<lparr>pause_event := True, shutdown_flag := True\<rparr>"

definition deliver :: "os_signal option \<Rightarrow> processor \<Rightarrow> processor" where
  "deliver sg st =
     (case sg of None \<Rightarrow> st | Some SIGINT \<Rightarrow> handle_interrupt st
      | Some SIGTERM \<Rightarrow> handle_terminate st)"

text \<open>The inner loop of \<open>process_news_batch\<close> over the items of one batch.\<close>

fun process_items ::
  "(string \<Rightarrow> text_sentiment option) \<Rightarrow> news_item list \<Rightarrow> scored list \<times> int \<Rightarrow> scored list \<times> int" where
  "process_items analyze_text [] (results, lastid) = (results, lastid)"
| "process_items analyze_text (item # items) (results, lastid) =
     (if news_id item > lastid
      then (case analyze_text (news_title item @ '' '' @ news_summary item) of
              Some sentiment \<Rightarrow>
                process_items analyze_text items
                  (results @ [\<lparr>res_id = news_id item, res_symbol = news_symbol item,
                               res_sentiment = sentiment\<rparr>],
                   news_id item)
            | None \<Rightarrow> process_items analyze_text items (results, lastid))
      else process_items analyze_text items (results, lastid))"

text \<open>One batch: the inner loop, then the checkpoint written after the batch.\<close>

definition process_batch ::
  "environment \<Rightarrow> news_item list \<Rightarrow> scored list \<Rightarrow> processor \<Rightarrow> scored list \<times> processor" where
  "process_batch env batch results st =
     (case process_items (classifier env) batch (results, last_processed_id st) of
        (results', lastid') \<Rightarrow>
          (results', analyzer_save_checkpoint env (st\<lparr>last_processed_id := lastid'\<rparr>)))"

text \<open>
  The outer loop of \<open>process_news_batch\<close> for a positive batch size: \<open>items\<close> is what
  is left of \<open>news_items\<close> from index \<open>i\<close> on, and \<open>k\<close> counts the batches.
\<close>

function process_batches ::
  "environment \<Rightarrow> nat \<Rightarrow> nat \<Rightarrow> news_item list \<Rightarrow> scored list \<Rightarrow> processor
     \<Rightarrow> scored list \<times> processor" where
  "process_batches env batch_size k items results st =
     (if items = [] \<or> batch_size = 0 then (results, st)
      else if pause_event (deliver (arriving env k) st)
        then (results, analyzer_save_checkpoint env (deliver (arriving env k) st))
      else (case process_batch env (take batch_size items) results (deliver (arriving env k) st) of
              (results', st') \<Rightarrow>
                process_batches env batch_size (Suc k) (drop batch_size items) results' st'))"
  by pat_completeness auto
termination
  by (relation "measure (\<lambda>(env, batch_size, k, items, results, st). length items)") auto

declare process_batches.simps [simp del]

text \<open>
  \<open>process_news_batch\<close>: \<open>range(0, len(news_items), 0)\<close> raises \<open>ValueError\<close>, and a
  negative step gives an empty range.
\<close>

definition process_news_batch ::
  "environment \<Rightarrow> int \<Rightarrow> news_item list \<Rightarrow> processor \<Rightarrow> error + scored list \<times> processor" where
  "process_news_batch env batch_size news_items st =
     (if batch_size = 0 then Inl ValueError
      else if batch_size < 0 then Inr ([], st)
      else Inr (process_batches env (nat batch_size) 0 news_items [] st))"

section \<open>Interruptible processor (ml\_processor.py)\<close>

definition fetch_unprocessed_news :: "environment \<Rightarrow> processor \<Rightarrow> news_item list" where
  "fetch_unprocessed_news env st =
     (if fetch_ok env
      then sort_key news_id (filter (\<lambda>item. news_id item > last_news_id st) (news_data env))
      else [])"

definition upsert :: "string \<Rightarrow> (int \<Rightarrow> stored_sentiment option) \<Rightarrow> scored
    \<Rightarrow> (int \<Rightarrow> stored_sentiment option)" where
  "upsert stamp tbl r =
     tbl(res_id r \<mapsto>
       \<lparr>st_symbol = res_symbol r,
        st_negative_score = score_negative (res_sentiment r),
        st_neutral_score = score_neutral (res_sentiment r),
        st_positive_score = score_positive (res_sentiment r),
        st_dominant_sentiment = dominant_sentiment (res_sentiment r),
        st_confidence = confidence (res_sentiment r),
        st_timestamp = stamp\<rparr>)"

text \<open>
  \<open>save_sentiment_results\<close>: when sqlite3 raises, nothing is committed and the
  checkpoint is left as it is.
\<close>

definition save_sentiment_results :: "environment \<Rightarrow> scored list \<Rightarrow> processor \<Rightarrow> processor" where
  "save_sentiment_results env results st =
     (if results = [] then st
      else if store_ok env
      then save_checkpoint (file_ok env)
             (st\<lparr>sentiment_results := foldl (upsert (clock env)) (sentiment_results st) results,
                 last_news_id := Max (set (map res_id results)),
                 last_run := Some (clock env)\<rparr>)
      else st)"

text \<open>One pass of the \<open>while\<close> loop of \<open>process\<close>, entered with the shutdown flag clear.\<close>

definition process_pass :: "environment \<Rightarrow> int \<Rightarrow> processor \<Rightarrow> processor" where
  "process_pass env batch_size st =
     (if pause_event st then st
      else (let news_items = fetch_unprocessed_news env st
            in if news_items = [] then st
               else (case process_news_batch env batch_size news_items st of
                       Inl e \<Rightarrow> st
                     | Inr (results, st') \<Rightarrow> save_sentiment_results env results st')))"

text \<open>
  The operations on a processor during one process lifetime: a pass of the main loop, a
  signal delivered between passes, and the public methods \<open>resume\<close>, \<open>pause\<close> and
  \<open>shutdown\<close> (whose argument says whether the checkpoint file can be written).
\<close>

datatype operation =
    Pass environment int
  | Deliver os_signal
  | Resume
  | Pause
  | Shutdown bool

fun exec :: "operation \<Rightarrow> processor \<Rightarrow> processor" where
  "exec (Pass env batch_size) st =
     (if shutdown_flag st then st else process_pass env batch_size st)"
| "exec (Deliver sg) st = deliver (Some sg) st"
| "exec Resume st = st\<lparr>pause_event := False\<rparr>"
| "exec Pause st = st\<lparr>pause_event := True\<rparr>"
| "exec (Shutdown ok) st =
     save_checkpoint ok (st\<lparr>pause_event := True, shutdown_flag := True\<rparr>)"

fun run :: "operation list \<Rightarrow> processor \<Rightarrow> processor" where
  "run [] st = st"
| "run (op # ops) st = run ops (exec op st)"

text \<open>
  Specification side of the checkpoint claims: the classifier scores an item, the keys
  of the items that \<open>process_news_batch\<close> scores in a pass, the key that the processor's
  checkpoint file holds, and the file being no further than the state in memory (as it
  is right after \<open>_load_checkpoint\<close>).
\<close>

definition accepted :: "(string \<Rightarrow> text_sentiment option) \<Rightarrow> news_item \<Rightarrow> bool" where
  "accepted analyze_text item =
     (analyze_text (news_title item @ '' '' @ news_summary item) \<noteq> None)"

definition scored_ids :: "environment \<Rightarrow> int \<Rightarrow> processor \<Rightarrow> int set" where
  "scored_ids env batch_size st =
     (case process_news_batch env batch_size (fetch_unprocessed_news env st) st of
        Inl e \<Rightarrow> {}
      | Inr (results, st') \<Rightarrow> res_id ` set results)"

definition persisted :: "processor \<Rightarrow> int option" where
  "persisted st = map_option fst (processor_checkpoint st)"

definition checkpoint_consistent :: "processor \<Rightarrow> bool" where
  "checkpoint_consistent st =
     (case persisted st of None \<Rightarrow> True | Some i \<Rightarrow> i \<le> last_news_id st)"

text \<open>
  A later state is no further back than an earlier one: neither checkpoint value in
  memory has decreased, and a consistent checkpoint file is still consistent, still
  there, and holds a key no smaller than before.
\<close>

definition advances :: "processor \<Rightarrow> processor \<Rightarrow> bool" where
  "advances st st' =
     (last_news_id st \<le> last_news_id st' \<and>
      last_processed_id st \<le> last_processed_id st' \<and>
      (checkpoint_consistent st \<longrightarrow>
         checkpoint_consistent st' \<and>
         (case persisted st of
            None \<Rightarrow> True
          | Some i \<Rightarrow> (case persisted st' of None \<Rightarrow> False | Some j \<Rightarrow> i \<le> j))))"

section \<open>Notification gate (notification\_system.py, run\_notifier.py)\<close>

text \<open>
  A \<open>datetime.time\<close> value.  Python compares two of them as the tuples (hour, minute,
  second, microsecond), that is lexicographically.
\<close>

record clock_time =
  hour :: nat
  minute :: nat
  second :: nat
  microsecond :: nat

definition time_lt :: "clock_time \<Rightarrow> clock_time \<Rightarrow> bool" where
  "time_lt a b =
     (hour a < hour b \<or>
      (hour a = hour b \<and>
       (minute a < minute b \<or>
        (minute a = minute b \<and>
         (second a < second b \<or>
          (second a = second b \<and> microsecond a < microsecond b))))))"

definition time_le :: "clock_time \<Rightarrow> clock_time \<Rightarrow> bool" where
  "time_le a b = (time_lt a b \<or> a = b)"

text \<open>
  The configuration dictionary.  The quiet-hours bounds are kept as the (hour, minute)
  pair that \<open>strptime(..., '%H:%M')\<close> reads from the configured string; \<open>hm_time\<close> is the
  \<open>time\<close> object it returns, with seconds and microseconds zero.
\<close>

record config =
  quiet_enabled :: bool
  quiet_start :: "nat \<times> nat"
  quiet_end :: "nat \<times> nat"
  weekends_enabled :: bool
  collect_for_monday :: bool
  minimum_confidence :: real
  last_notification :: "string option"

definition hm_time :: "nat \<times> nat \<Rightarrow> clock_time" where
  "hm_time hm = \<lparr>hour = fst hm, minute = snd hm, second = 0, microsecond = 0\<rparr>"

definition default_config :: config where
  "default_config =
     \<lparr>quiet_enabled = True, quiet_start = (22, 0), quiet_end = (7, 30),
      weekends_enabled = True, collect_for_monday = True,
      minimum_confidence = 0.7, last_notification = None\<rparr>"

definition is_in_quiet_hours :: "config \<Rightarrow> clock_time \<Rightarrow> bool" where
  "is_in_quiet_hours cfg now =
     (if \<not> quiet_enabled cfg then False
      else (let start = hm_time (quiet_start cfg); finish = hm_time (quiet_end cfg)
            in if time_lt finish start
               then time_le start now \<or> time_le now finish
               else time_le start now \<and> time_le now finish))"

text \<open>\<open>weekday()\<close> counts from Monday, which is 0.\<close>

definition is_weekend :: "config \<Rightarrow> nat \<Rightarrow> bool" where
  "is_weekend cfg weekday = (if \<not> weekends_enabled cfg then False else weekday \<ge> 5)"

text \<open>The dictionary \<open>get_unnotified_signals\<close> builds from a row of \<open>trading_signals\<close>.\<close>

record pending =
  p_id :: nat
  p_symbol :: symbol
  p_timestamp :: string
  p_signal_type :: string
  p_confidence :: real
  p_close_price :: real
  p_reason :: string

text \<open>
  What one call of \<open>send_signal\<close> and the \<open>mark_as_notified\<close> after it read from outside:
  the clock when \<open>_is_in_quiet_hours\<close> runs, the weekday when \<open>_is_weekend\<close> runs,
  whether the transport accepts the message (otherwise it raises \<open>TelegramError\<close>),
  the clock for \<open>last_notification\<close>, and whether the store accepts the update.
\<close>

record attempt =
  quiet_clock :: clock_time
  weekend_clock :: nat
  transport_ok :: bool
  sent_clock :: string
  mark_ok :: bool

text \<open>
  The notifier: its configuration and the messages the transport has accepted, each
  recorded as the signal that \<open>_format_signal_message\<close> was applied to.
\<close>

record notifier =
  cfg :: config
  outbox :: "pending list"

definition send_signal :: "attempt \<Rightarrow> pending \<Rightarrow> notifier \<Rightarrow> bool \<times> notifier" where
  "send_signal att sg n =
     (if is_in_quiet_hours (cfg n) (quiet_clock att) then (False, n)
      else (let is_weekend' = is_weekend (cfg n) (weekend_clock att);
                collect = collect_for_monday (cfg n)
            in if is_weekend' \<and> \<not> collect then (False, n)
               else if transport_ok att
               then (True, n\<lparr>cfg := (cfg n)\<lparr>last_notification := Some (sent_clock att)\<rparr>,
                             outbox := outbox n @ [sg]\<rparr>)
               else (False, n)))"

text \<open>
  \<open>get_unnotified_signals\<close>: the rows with \<open>notified = 0\<close>, newest timestamp first (text
  columns compare bytewise); the empty list when sqlite3 raises.
\<close>

definition get_unnotified_signals :: "bool \<Rightarrow> signal_table \<Rightarrow> pending list" where
  "get_unnotified_signals query_ok tbl =
     (if query_ok
      then map (\<lambda>r. \<lparr>p_id = ts_id r, p_symbol = ts_symbol r, p_timestamp = ts_timestamp r,
                      p_signal_type = ts_signal_type r, p_confidence = ts_confidence r,
                      p_close_price = ts_close_price r, p_reason = ts_reason r\<rparr>)
             (rev (sort_key ts_timestamp (filter (\<lambda>r. \<not> ts_notified r) (rows tbl))))
      else [])"

definition mark_as_notified :: "bool \<Rightarrow> nat \<Rightarrow> signal_table \<Rightarrow> signal_table" where
  "mark_as_notified ok signal_id tbl =
     (if ok
      then tbl\<lparr>rows := map (\<lambda>r. if ts_id r = signal_id then r\<lparr>ts_notified := True\<rparr> else r)
                          (rows tbl)\<rparr>
      else tbl)"

text \<open>
  The loop of \<open>send_notifications\<close>.  The environment of an attempt is looked up by the
  signal's key, which is unique in the table.
\<close>

fun notify_loop ::
  "(nat \<Rightarrow> attempt) \<Rightarrow> pending list \<Rightarrow> notifier \<times> signal_table \<Rightarrow> notifier \<times> signal_table" where
  "notify_loop env [] (n, tbl) = (n, tbl)"
| "notify_loop env (sg # sgs) (n, tbl) =
     (case send_signal (env (p_id sg)) sg n of
        (True, n') \<Rightarrow>
          notify_loop env sgs (n', mark_as_notified (mark_ok (env (p_id sg))) (p_id sg) tbl)
      | (False, n') \<Rightarrow> notify_loop env sgs (n', tbl))"

definition send_notifications ::
  "bool \<Rightarrow> (nat \<Rightarrow> attempt) \<Rightarrow> notifier \<times> signal_table \<Rightarrow> notifier \<times> signal_table" where
  "send_notifications query_ok env state =
     (let signals = get_unnotified_signals query_ok (snd state)
      in if signals = [] then state else notify_loop env signals state)"

text \<open>A sequence of invocations of the job, each with its own environment.\<close>

fun invocations ::
  "(bool \<times> (nat \<Rightarrow> attempt)) list \<Rightarrow> notifier \<times> signal_table \<Rightarrow> notifier \<times> signal_table" where
  "invocations [] state = state"
| "invocations ((query_ok, env) # later) state =
     invocations later (send_notifications query_ok env state)"

text \<open>
  Specification side of the gate claims: an attempt is suppressed by policy, and an
  attempt ends with the transport reporting success.
\<close>

definition suppressed :: "config \<Rightarrow> attempt \<Rightarrow> bool" where
  "suppressed c att =
     (is_in_quiet_hours c (quiet_clock att) \<or>
      (is_weekend c (weekend_clock att) \<and> \<not> collect_for_monday c))"

definition delivered :: "config \<Rightarrow> attempt \<Rightarrow> bool" where
  "delivered c att = (\<not> suppressed c att \<and> transport_ok att)"

text \<open>
  Specification side of the quiet-hours claim: a time of day as microseconds since
  midnight, for a \<open>time\<close> object whose fields are in range.
\<close>

definition valid_time :: "clock_time \<Rightarrow> bool" where
  "valid_time t = (hour t < 24 \<and> minute t < 60 \<and> second t < 60 \<and> microsecond t < 1000000)"

definition time_of_day :: "clock_time \<Rightarrow> nat" where
  "time_of_day t = ((hour t * 60 + minute t) * 60 + second t) * 1000000 + microsecond t"

text \<open>
  The keys of the rows of \<open>trading_signals\<close> that are not yet notified, and the keys of
  the messages a state's outbox gained over an earlier outbox.
\<close>

definition unnotified_ids :: "signal_table \<Rightarrow> nat set" where
  "unnotified_ids tbl = ts_id ` set (filter (\<lambda>r. \<not> ts_notified r) (rows tbl))"

definition sent_since :: "notifier \<Rightarrow> notifier \<Rightarrow> nat set" where
  "sent_since n n' = p_id ` set (drop (length (outbox n)) (outbox n'))"

definition same_policy :: "config \<Rightarrow> config \<Rightarrow> bool" where
  "same_policy c c' =
     (quiet_enabled c = quiet_enabled c' \<and> quiet_start c = quiet_start c' \<and>
      quiet_end c = quiet_end c' \<and> weekends_enabled c = weekends_enabled c' \<and>
      collect_for_monday c = collect_for_monday c')"

section \<open>Process supervisor (system\_monitor.py)\<close>

text \<open>
  An entry of \<open>psutil.process_iter(['pid', 'name', 'cmdline'])\<close>: the name is \<open>None\<close>
  when psutil could not read it, and an unreadable command line counts as empty.
  Strings are byte strings here, so \<open>lower\<close> changes the ASCII capitals only.
\<close>

record process_info =
  proc_name :: "string option"
  proc_cmdline :: "string list"

definition lower_char :: "char \<Rightarrow> char" where
  "lower_char c =
     (let n = (of_char c :: nat) in if 65 \<le> n \<and> n \<le> 90 then char_of (n + 32) else c)"

definition lower :: "string \<Rightarrow> string" where
  "lower s = map lower_char s"

fun join_space :: "string list \<Rightarrow> string" where
  "join_space [] = []"
| "join_space [w] = w"
| "join_space (w # ws) = w @ '' '' @ join_space ws"

text \<open>
  The inner loop of \<open>check_processes\<close> for one script, up to its \<open>break\<close>.  A name that
  is \<open>None\<close> makes \<open>.lower()\<close> raise \<open>AttributeError\<close>, which only the outer handler
  catches: the value \<open>None\<close>.
\<close>

fun scan :: "process_info list \<Rightarrow> string \<Rightarrow> bool option" where
  "scan [] script = Some False"
| "scan (p # ps) script =
     (case proc_name p of
        None \<Rightarrow> None
      | Some name \<Rightarrow>
          (if sublist ''python'' (lower name) \<and> proc_cmdline p \<noteq> []
                \<and> sublist script (join_space (proc_cmdline p))
           then Some True
           else scan ps script))"

definition script_names :: "(string \<times> string) list" where
  "script_names =
     [(''data_collector'', ''run_collector.py''),
      (''technical_analyzer'', ''run_technical_analysis.py''),
      (''signal_generator'', ''run_signal_generator.py''),
      (''notifier'', ''run_notifier.py'')]"

fun check_loop ::
  "process_info list \<Rightarrow> (string \<times> string) list \<Rightarrow> (string \<times> nat) list
     \<Rightarrow> (string \<times> nat) list option" where
  "check_loop procs [] status = Some status"
| "check_loop procs ((key, script) # others) status =
     (case scan procs script of
        None \<Rightarrow> None
      | Some running \<Rightarrow>
          check_loop procs others
            (status @ [(key @ ''_running'', if running then 1 else 0)]))"

definition check_processes :: "process_info list \<Rightarrow> (string \<times> nat) list option" where
  "check_processes procs = check_loop procs script_names []"

definition dict_get :: "(string \<times> nat) list \<Rightarrow> string \<Rightarrow> nat \<Rightarrow> nat" where
  "dict_get d k dflt = (case map_of d k of Some v \<Rightarrow> v | None \<Rightarrow> dflt)"

record status_row =
  sr_timestamp :: string
  sr_cpu_usage :: real
  sr_memory_usage :: real
  sr_disk_usage :: real
  sr_db_size :: nat
  data_collector_running :: nat
  technical_analyzer_running :: nat
  signal_generator_running :: nat
  notifier_running :: nat

record resources =
  cpu_usage :: real
  memory_usage :: real
  disk_usage :: real
  db_size :: nat

text \<open>
  The supervisor's effects: the calls of \<open>restart_process\<close> in the order made, the
  scripts handed to \<open>Popen\<close>, and the table \<open>system_status\<close>.
\<close>

record supervisor =
  restart_calls :: "string list"
  spawned :: "string list"
  system_status :: "status_row list"

record host =
  script_exists :: "string \<Rightarrow> bool"
  popen_ok :: "string \<Rightarrow> bool"

definition restart_process :: "host \<Rightarrow> string \<Rightarrow> supervisor \<Rightarrow> bool \<times> supervisor" where
  "restart_process h script_name st =
     (let st1 = st\<lparr>restart_calls := restart_calls st @ [script_name]\<rparr>
      in if \<not> script_exists h script_name then (False, st1)
         else if popen_ok h script_name
         then (True, st1\<lparr>spawned := spawned st1 @ [script_name]\<rparr>)
         else (False, st1))"

definition script_mapping :: "(string \<times> string) list" where
  "script_mapping =
     [(''data_collector_running'', ''run_collector.py''),
      (''technical_analyzer_running'', ''run_technical_analysis.py''),
      (''signal_generator_running'', ''run_signal_generator.py''),
      (''notifier_running'', ''run_notifier.py'')]"

fun restart_loop ::
  "host \<Rightarrow> (string \<times> nat) list \<Rightarrow> (string \<times> string) list \<Rightarrow> supervisor \<Rightarrow> supervisor" where
  "restart_loop h status [] st = st"
| "restart_loop h status ((status_key, script) # others) st =
     (if dict_get status status_key 0 = 0
      then restart_loop h status others (snd (restart_process h script st))
      else restart_loop h status others st)"

definition check_and_restart_processes ::
  "process_info list \<Rightarrow> host \<Rightarrow> supervisor \<Rightarrow> supervisor" where
  "check_and_restart_processes procs h st =
     (case check_processes procs of
        None \<Rightarrow> st
      | Some status \<Rightarrow>
          (if status = [] then st else restart_loop h status script_mapping st))"

text \<open>
  \<open>save_status\<close>: \<open>check_system_resources\<close> enters as its result (\<open>None\<close> when it caught
  an exception); a key missing from \<open>data\<close> raises \<open>KeyError\<close>, caught like a failing
  insert.
\<close>

definition save_status ::
  "resources option \<Rightarrow> process_info list \<Rightarrow> bool \<Rightarrow> string \<Rightarrow> supervisor \<Rightarrow> bool \<times> supervisor" where
  "save_status res procs db_ok now st =
     (case res of
        None \<Rightarrow> (False, st)
      | Some r \<Rightarrow>
          (case check_processes procs of
             None \<Rightarrow> (False, st)
           | Some processes \<Rightarrow>
               (if processes = [] then (False, st)
                else (case (map_of processes ''data_collector_running'',
                            map_of processes ''technical_analyzer_running'',
                            map_of processes ''signal_generator_running'',
                            map_of processes ''notifier_running'') of
                        (Some dc, Some ta, Some sg, Some nf) \<Rightarrow>
                          (if db_ok
                           then (True, st\<lparr>system_status := system_status st @
                                   [\<lparr>sr_timestamp = now, sr_cpu_usage = cpu_usage r,
                                     sr_memory_usage = memory_usage r,
                                     sr_disk_usage = disk_usage r, sr_db_size = db_size r,
                                     data_collector_running = dc,
                                     technical_analyzer_running = ta,
                                     signal_generator_running = sg,
                                     notifier_running = nf\<rparr>]\<rparr>)
                           else (False, st))
                      | _ \<Rightarrow> (False, st)))))"

text \<open>
  \<open>run_monitoring\<close>: the process table is read twice, once by \<open>save_status\<close> and once
  by \<open>check_and_restart_processes\<close>.
\<close>

definition run_monitoring ::
  "resources option \<Rightarrow> process_info list \<Rightarrow> process_info list \<Rightarrow> bool \<Rightarrow> string \<Rightarrow> host
     \<Rightarrow> supervisor \<Rightarrow> supervisor" where
  "run_monitoring res procs_at_save procs_at_check db_ok now h st =
     check_and_restart_processes procs_at_check h
       (snd (save_status res procs_at_save db_ok now st))"

text \<open>
  Specification side of the supervisor claim: the scripts of the roles that a status
  dictionary reports as not running, in the order of the mapping.
\<close>

definition not_running :: "(string \<times> nat) list \<Rightarrow> string list" where
  "not_running status =
     map snd (filter (\<lambda>(status_key, script). dict_get status status_key 0 = 0) script_mapping)"

section \<open>Concrete inputs\<close>

text \<open>
  A store with a technical row for two symbols and sentiment rows for one of them.
\<close>

definition demo_db :: market_db where
  "demo_db =
     \<lparr>technical_query = (\<lambda>s.
        if s = ''AAPL''
          then Some [\<lparr>ta_id = 1, ta_symbol = ''AAPL'', ta_timestamp = ''2024-01-02 10:00:00'',
                      ta_close_price = 190, ta_overall_signal = ''BUY'',
                      ta_signal_strength = 0.8\<rparr>]
        else if s = ''MSFT''
          then Some [\<lparr>ta_id = 2, ta_symbol = ''MSFT'', ta_timestamp = ''2024-01-02 10:00:00'',
                      ta_close_price = 370, ta_overall_signal = ''NEUTRAL'',
                      ta_signal_strength = 0.5\<rparr>]
        else Some []),
      sentiment_query = (\<lambda>s.
        if s = ''MSFT''
          then Some [\<lparr>sr_news_id = 7, sr_symbol = ''MSFT'', sr_negative_score = 0.75,
                      sr_neutral_score = 0.2, sr_positive_score = 0.05,
                      sr_dominant_sentiment = ''negative'', sr_confidence = 0.75,
                      nd_title = ''Outlook cut'', nd_summary = ''Guidance lowered''\<rparr>]
        else Some [])\<rparr>"



text \<open>
  A configuration whose quiet hours do not wrap midnight (09:00 to 17:00), a pending
  signal, and an attempt made at 17:00:00 on a Monday with a working transport.
\<close>

definition office_config :: config where
  "office_config = default_config\<lparr>quiet_start := (9, 0), quiet_end := (17, 0)\<rparr>"

definition demo_pending :: pending where
  "demo_pending =
     \<lparr>p_id = 1, p_symbol = ''AAPL'', p_timestamp = ''2024-01-02 10:00:00'',
      p_signal_type = ''BUY'', p_confidence = 0.71, p_close_price = 190,
      p_reason = ''Technische Indikatoren''\<rparr>"

definition at_five :: attempt where
  "at_five =
     \<lparr>quiet_clock = hm_time (17, 0), weekend_clock = 0, transport_ok = True,
      sent_clock = ''2024-01-01 17:00:00'', mark_ok = True\<rparr>"

text \<open>
  A table with two signals that are not yet notified, a notifier with the default policy
  except that weekend signals are not collected for Monday, and three environments:
  a Tuesday noon on which the transport fails for signal 1 and works for signal 2, and a
  Saturday and a Sunday noon with a working transport.
\<close>

definition demo_table :: signal_table where
  "demo_table =
     \<lparr>rows =
        [\<lparr>ts_id = 1, ts_symbol = ''AAPL'', ts_timestamp = ''2024-01-02 10:00:00'',
          ts_signal_type = ''BUY'', ts_confidence = 0.71, ts_close_price = 190,
          ts_technical_signal = ''BUY'', ts_sentiment_signal = ''NEUTRAL'',
          ts_reason = ''Technische Indikatoren'', ts_notified = False, ts_verified = False,
          ts_outcome = None\<rparr>,
         \<lparr>ts_id = 2, ts_symbol = ''MSFT'', ts_timestamp = ''2024-01-02 10:30:00'',
          ts_signal_type = ''SELL'', ts_confidence = 0.8, ts_close_price = 370,
          ts_technical_signal = ''SELL'', ts_sentiment_signal = ''SELL'',
          ts_reason = ''Negative Nachrichten'', ts_notified = False, ts_verified = False,
          ts_outcome = None\<rparr>],
      next_id = 3\<rparr>"

definition strict_notifier :: notifier where
  "strict_notifier = \<lparr>cfg = default_config\<lparr>collect_for_monday := False\<rparr>, outbox = []\<rparr>"

definition noon :: clock_time where
  "noon = \<lparr>hour = 12, minute = 0, second = 0, microsecond = 0\<rparr>"


definition saturday :: "nat \<Rightarrow> attempt" where
  "saturday i =
     \<lparr>quiet_clock = noon, weekend_clock = 5, transport_ok = True,
      sent_clock = ''2024-01-06 12:00:00'', mark_ok = True\<rparr>"

definition sunday :: "nat \<Rightarrow> attempt" where
  "sunday i =
     \<lparr>quiet_clock = noon, weekend_clock = 6, transport_ok = True,
      sent_clock = ''2024-01-07 12:00:00'', mark_ok = True\<rparr>"

text \<open>
  Two news items, a classifier that fails on the first and scores the second, no signal,
  a working store, and a processor that starts without a checkpoint.
\<close>

definition first_item :: news_item where
  "first_item =
     \<lparr>news_id = 1, news_timestamp = ''2024-01-02 09:00:00'', news_symbol = ''AAPL'',
      news_title = ''a'', news_summary = ''x'', news_url = ''u1''\<rparr>"

definition second_item :: news_item where
  "second_item =
     \<lparr>news_id = 2, news_timestamp = ''2024-01-02 09:05:00'', news_symbol = ''AAPL'',
      news_title = ''b'', news_summary = ''y'', news_url = ''u2''\<rparr>"

definition two_env :: environment where
  "two_env =
     \<lparr>news_data = [first_item, second_item], fetch_ok = True,
      classifier = (\<lambda>t. if t = ''b y''
         then Some \<lparr>score_negative = 0.1, score_neutral = 0.2, score_positive = 0.7,
                    dominant_sentiment = ''positive'', confidence = 0.7\<rparr>
         else None),
      arriving = (\<lambda>k. None), store_ok = True, file_ok = True,
      clock = ''2024-01-02 09:10:00''\<rparr>"

definition fresh :: processor where
  "fresh =
     \<lparr>last_news_id = 0, last_run = None, last_processed_id = 0, pause_event = False,
      shutdown_flag = False, processor_checkpoint = None, sentiment_checkpoint = None,
      sentiment_results = (\<lambda>i. None)\<rparr>"

text \<open>
  A process table in which only the data collector runs, a host on which the notifier's
  script is missing, resource readings, and a supervisor that has done nothing yet.
\<close>

definition demo_procs :: "process_info list" where
  "demo_procs =
     [\<lparr>proc_name = Some ''systemd'', proc_cmdline = [''/sbin/init'']\<rparr>,
      \<lparr>proc_name = Some ''Python3'', proc_cmdline = [''python3'', ''./run_collector.py'']\<rparr>,
      \<lparr>proc_name = Some ''bash'', proc_cmdline = []\<rparr>]"

definition demo_host :: host where
  "demo_host =
     \<lparr>script_exists = (\<lambda>s. s \<noteq> ''run_notifier.py''), popen_ok = (\<lambda>s. True)\<rparr>"

definition demo_resources :: resources where
  "demo_resources = \<lparr>cpu_usage = 12.5, memory_usage = 40, disk_usage = 71, db_size = 4096\<rparr>"

definition idle_supervisor :: supervisor where
  "idle_supervisor = \<lparr>restart_calls = [], spawned = [], system_status = []\<rparr>"

section \<open>Properties of the fusion engine\<close>

lemma generate_one_passes:
  "generate_one db thr now smb \<noteq> None \<longleftrightarrow> passes_gate db thr smb"
  by (simp add: generate_one_def passes_gate_def fused_def Let_def
      split: option.splits prod.splits)

lemma generate_one_fields:
  assumes "generate_one db thr now smb = Some sg"
  shows "sig_symbol sg = smb"
    and "fused db smb = Some (sig_signal_type sg, sig_confidence sg)"
  using assms
  by (auto simp add: generate_one_def fused_def Let_def
      split: option.splits prod.splits if_splits)

lemma generate_loop_map_filter:
  "generate_loop db thr now smbs acc = acc @ List.map_filter (generate_one db thr now) smbs"
  by (induction smbs arbitrary: acc) (simp_all split: option.splits)









text \<open>
  C8.  Missing inputs.  A symbol whose technical query returns no row yields no signal:
  the loop body ends at \<open>continue\<close>, and a run over any list of symbols gives the same
  result as the run without that symbol; the model has no failing branch here.  A symbol
  with a technical row and no sentiment row is fused with the sentiment signal NEUTRAL
  and the sentiment strength 0.5.
\<close>

theorem missing_inputs:
  "(technical_query db smb = Some [] \<longrightarrow>
      generate_one db thr now smb = None \<and>
      generate_signals db thr now symbols =
        generate_signals db thr now (filter (\<lambda>s. s \<noteq> smb) symbols)) \<and>
   (technical_query db smb = Some (row # older) \<and> sentiment_query db smb = Some [] \<longrightarrow>
      sentiment_side (get_latest_sentiment db smb) = (''NEUTRAL'', 0.5) \<and>
      fused db smb =
        Some (combine (ta_overall_signal row) (ta_signal_strength row) ''NEUTRAL'' 0.5) \<and>
      (\<forall>sg. generate_one db thr now smb = Some sg \<longrightarrow>
         sig_sentiment_signal sg = ''NEUTRAL'' \<and> sig_sentiment_strength sg = 0.5 \<and>
         (sig_signal_type sg, sig_confidence sg) =
           combine (ta_overall_signal row) (ta_signal_strength row) ''NEUTRAL'' 0.5) \<and>
      (generate_one db thr now smb \<noteq> None \<longleftrightarrow>
         snd (combine (ta_overall_signal row) (ta_signal_strength row) ''NEUTRAL'' 0.5) \<ge> thr))"
proof -
  have skip: "generate_signals db thr now symbols =
        generate_signals db thr now (filter (\<lambda>s. s \<noteq> smb) symbols)"
    if none: "generate_one db thr now smb = None"
  proof -
    have "List.map_filter (generate_one db thr now) symbols =
        List.map_filter (generate_one db thr now) (filter (\<lambda>s. s \<noteq> smb) symbols)"
      using none by (induction symbols) (auto split: option.splits)
    then show ?thesis by (simp add: generate_signals_def generate_loop_map_filter)
  qed
  have one: "generate_one db thr now smb = None" if "technical_query db smb = Some []"
    using that by (simp add: generate_one_def get_latest_technical_analysis_def)
  have two: "sentiment_side (get_latest_sentiment db smb) = (''NEUTRAL'', 0.5)"
    if "sentiment_query db smb = Some []"
    using that by (simp add: get_latest_sentiment_def sentiment_side_def)
  have three: "fused db smb =
        Some (combine (ta_overall_signal row) (ta_signal_strength row) ''NEUTRAL'' 0.5)"
    if "technical_query db smb = Some (row # older)" "sentiment_query db smb = Some []"
    using that two by (simp add: fused_def get_latest_technical_analysis_def)
  have four: "sig_sentiment_signal sg = ''NEUTRAL'' \<and> sig_sentiment_strength sg = 0.5"
    if "sentiment_query db smb = Some []" "generate_one db thr now smb = Some sg" for sg
    using that two
    by (auto simp add: generate_one_def Let_def split: option.splits prod.splits if_splits)
  show ?thesis
    using skip one two three four generate_one_fields(2)[of db thr now smb]
      generate_one_passes[of db thr now smb]
    by (auto simp add: passes_gate_def)
qed

theorem missing_inputs_witness:
  "technical_query demo_db ''TSLA'' = Some [] \<and>
   generate_one demo_db 0.7 ''t'' ''TSLA'' = None \<and>
   generate_signals demo_db 0.7 ''t'' [''TSLA'', ''AAPL''] =
     generate_signals demo_db 0.7 ''t'' [''AAPL''] \<and>
   sentiment_query demo_db ''AAPL'' = Some [] \<and>
   sentiment_side (get_latest_sentiment demo_db ''AAPL'') = (''NEUTRAL'', 0.5) \<and>
   fused demo_db ''AAPL'' = Some (''BUY'', 0.71) \<and>
   generate_one demo_db 0.7 ''t'' ''AAPL'' \<noteq> None"
proof -
  have t: "technical_query demo_db ''TSLA'' = Some []"
    by (simp add: demo_db_def)
  have a: "technical_query demo_db ''AAPL'' =
      Some (\<lparr>ta_id = 1, ta_symbol = ''AAPL'', ta_timestamp = ''2024-01-02 10:00:00'',
              ta_close_price = 190, ta_overall_signal = ''BUY'',
              ta_signal_strength = 0.8\<rparr> # [])"
    "sentiment_query demo_db ''AAPL'' = Some []"
    by (simp_all add: demo_db_def)
  show ?thesis
    using missing_inputs[where db = demo_db and smb = "''TSLA''" and thr = "0.7"
          and now = "''t''" and symbols = "[''TSLA'', ''AAPL'']"] t
      missing_inputs[where db = demo_db and smb = "''AAPL''" and thr = "0.7"
          and now = "''t''" and older = "[]"
          and row = "\<lparr>ta_id = 1, ta_symbol = ''AAPL'', ta_timestamp = ''2024-01-02 10:00:00'',
              ta_close_price = 190, ta_overall_signal = ''BUY'',
              ta_signal_strength = 0.8\<rparr>"] a
    by (simp add: combine_def)
qed



section \<open>Properties of the notification gate\<close>

lemma time_lt_time_of_day:
  assumes "valid_time a" "valid_time b"
  shows "time_lt a b \<longleftrightarrow> time_of_day a < time_of_day b"
  using assms unfolding time_lt_def time_of_day_def valid_time_def
  by (cases "hour a < hour b"; cases "hour b < hour a"; cases "minute a < minute b";
      cases "minute b < minute a"; cases "second a < second b"; cases "second b < second a")
    auto

lemma time_of_day_inj:
  assumes "valid_time a" "valid_time b" "time_of_day a = time_of_day b"
  shows "a = b"
proof -
  have "\<not> time_lt a b" "\<not> time_lt b a"
    using assms time_lt_time_of_day[of a b] time_lt_time_of_day[of b a] by simp_all
  then have "hour a = hour b \<and> minute a = minute b \<and> second a = second b
      \<and> microsecond a = microsecond b"
    unfolding time_lt_def by auto
  then show ?thesis by simp
qed

lemma time_le_time_of_day:
  assumes "valid_time a" "valid_time b"
  shows "time_le a b \<longleftrightarrow> time_of_day a \<le> time_of_day b"
  using assms time_lt_time_of_day[OF assms] time_of_day_inj[OF assms]
  unfolding time_le_def by auto

lemma valid_hm_time: "h < 24 \<Longrightarrow> m < 60 \<Longrightarrow> valid_time (hm_time (h, m))"
  by (simp add: valid_time_def hm_time_def)

text \<open>
  C4, as the code has it.  With quiet hours enabled and bounds read as HH:MM: when the
  start is later than the end, a delivery is suppressed exactly when the current time is
  at or after the start or at or before the end; otherwise it is suppressed exactly when
  the current time lies in the closed interval from start to end, both bounds included.
  A suppressed delivery returns \<open>False\<close> and changes nothing.  For the window 22:00 to
  07:30, 23:00 and 06:00 are suppressed, 08:00 and 21:59 are allowed.
\<close>

theorem quiet_hours_window:
  assumes "quiet_enabled c"
    and "fst (quiet_start c) < 24" "snd (quiet_start c) < 60"
    and "fst (quiet_end c) < 24" "snd (quiet_end c) < 60"
    and "valid_time now"
  shows "(time_of_day (hm_time (quiet_end c)) < time_of_day (hm_time (quiet_start c)) \<longrightarrow>
           (is_in_quiet_hours c now \<longleftrightarrow>
              time_of_day (hm_time (quiet_start c)) \<le> time_of_day now \<or>
              time_of_day now \<le> time_of_day (hm_time (quiet_end c)))) \<and>
         (time_of_day (hm_time (quiet_start c)) \<le> time_of_day (hm_time (quiet_end c)) \<longrightarrow>
           (is_in_quiet_hours c now \<longleftrightarrow>
              time_of_day (hm_time (quiet_start c)) \<le> time_of_day now \<and>
              time_of_day now \<le> time_of_day (hm_time (quiet_end c)))) \<and>
         (is_in_quiet_hours c now \<and> cfg n = c \<and> quiet_clock att = now \<longrightarrow>
            send_signal att sg n = (False, n)) \<and>
         is_in_quiet_hours default_config (hm_time (23, 0)) \<and>
         is_in_quiet_hours default_config (hm_time (6, 0)) \<and>
         \<not> is_in_quiet_hours default_config (hm_time (8, 0)) \<and>
         \<not> is_in_quiet_hours default_config (hm_time (21, 59))"
proof -
  have vs: "valid_time (hm_time (quiet_start c))"
    using assms(2,3) valid_hm_time[of "fst (quiet_start c)" "snd (quiet_start c)"] by simp
  have ve: "valid_time (hm_time (quiet_end c))"
    using assms(4,5) valid_hm_time[of "fst (quiet_end c)" "snd (quiet_end c)"] by simp
  have window: "is_in_quiet_hours c now \<longleftrightarrow>
      (if time_of_day (hm_time (quiet_end c)) < time_of_day (hm_time (quiet_start c))
       then time_of_day (hm_time (quiet_start c)) \<le> time_of_day now \<or>
            time_of_day now \<le> time_of_day (hm_time (quiet_end c))
       else time_of_day (hm_time (quiet_start c)) \<le> time_of_day now \<and>
            time_of_day now \<le> time_of_day (hm_time (quiet_end c)))"
    using assms(1) time_lt_time_of_day[OF ve vs] time_le_time_of_day[OF vs assms(6)]
      time_le_time_of_day[OF assms(6) ve]
    by (simp add: is_in_quiet_hours_def Let_def)
  have send: "send_signal att sg n = (False, n)"
    if "is_in_quiet_hours c now" "cfg n = c" "quiet_clock att = now"
    using that by (simp add: send_signal_def)
  have examples: "is_in_quiet_hours default_config (hm_time (23, 0))"
    "is_in_quiet_hours default_config (hm_time (6, 0))"
    "\<not> is_in_quiet_hours default_config (hm_time (8, 0))"
    "\<not> is_in_quiet_hours default_config (hm_time (21, 59))"
    by (simp_all add: is_in_quiet_hours_def default_config_def hm_time_def time_lt_def
        time_le_def Let_def)
  show ?thesis
    using window send examples by (simp split: if_splits)
qed

theorem quiet_hours_window_witness:
  "is_in_quiet_hours default_config (hm_time (7, 30)) \<and>
   \<not> is_in_quiet_hours default_config
       \<lparr>hour = 7, minute = 30, second = 0, microsecond = 1\<rparr> \<and>
   is_in_quiet_hours office_config (hm_time (9, 0)) \<and>
   is_in_quiet_hours office_config (hm_time (17, 0)) \<and>
   \<not> is_in_quiet_hours office_config
       \<lparr>hour = 17, minute = 0, second = 0, microsecond = 1\<rparr> \<and>
   send_signal at_five demo_pending \<lparr>cfg = office_config, outbox = []\<rparr> =
     (False, \<lparr>cfg = office_config, outbox = []\<rparr>)"
proof -
  have d: "quiet_enabled default_config" "fst (quiet_start default_config) < 24"
    "snd (quiet_start default_config) < 60" "fst (quiet_end default_config) < 24"
    "snd (quiet_end default_config) < 60"
    by (simp_all add: default_config_def)
  have o: "quiet_enabled office_config" "fst (quiet_start office_config) < 24"
    "snd (quiet_start office_config) < 60" "fst (quiet_end office_config) < 24"
    "snd (quiet_end office_config) < 60"
    by (simp_all add: office_config_def default_config_def)
  have v: "valid_time (hm_time (7, 30))" "valid_time (hm_time (9, 0))"
    "valid_time (hm_time (17, 0))"
    "valid_time \<lparr>hour = 7, minute = 30, second = 0, microsecond = 1\<rparr>"
    "valid_time \<lparr>hour = 17, minute = 0, second = 0, microsecond = 1\<rparr>"
    by (simp_all add: valid_time_def hm_time_def)
  have td: "quiet_start default_config = (22, 0)" "quiet_end default_config = (7, 30)"
    "quiet_start office_config = (9, 0)" "quiet_end office_config = (17, 0)"
    by (simp_all add: office_config_def default_config_def)
  have a: "is_in_quiet_hours default_config (hm_time (7, 30))"
    using quiet_hours_window[OF d v(1), THEN conjunct1]
    by (simp add: td time_of_day_def hm_time_def)
  have b: "\<not> is_in_quiet_hours default_config
       \<lparr>hour = 7, minute = 30, second = 0, microsecond = 1\<rparr>"
    using quiet_hours_window[OF d v(4), THEN conjunct1]
    by (simp add: td time_of_day_def hm_time_def)
  have c: "is_in_quiet_hours office_config (hm_time (9, 0))"
    using quiet_hours_window[OF o v(2), THEN conjunct2, THEN conjunct1]
    by (simp add: td time_of_day_def hm_time_def)
  have e: "is_in_quiet_hours office_config (hm_time (17, 0))"
    using quiet_hours_window[OF o v(3), THEN conjunct2, THEN conjunct1]
    by (simp add: td time_of_day_def hm_time_def)
  have f: "\<not> is_in_quiet_hours office_config
       \<lparr>hour = 17, minute = 0, second = 0, microsecond = 1\<rparr>"
    using quiet_hours_window[OF o v(5), THEN conjunct2, THEN conjunct1]
    by (simp add: td time_of_day_def hm_time_def)
  have g: "send_signal at_five demo_pending \<lparr>cfg = office_config, outbox = []\<rparr> =
     (False, \<lparr>cfg = office_config, outbox = []\<rparr>)"
    using quiet_hours_window[OF o v(3), THEN conjunct2, THEN conjunct2, THEN conjunct1,
        of "\<lparr>cfg = office_config, outbox = []\<rparr>" at_five demo_pending] e
    by (simp add: at_five_def)
  show ?thesis using a b c e f g by simp
qed

text \<open>
  C4 as stated fails where the window does not wrap: for quiet hours from 09:00 to
  17:00 the time 17:00:00, equal to the end, is suppressed, and the send returns
  \<open>False\<close> although the transport would have accepted the message.
\<close>

theorem quiet_hours_end_counterexample:
  "quiet_enabled office_config \<and>
   \<not> time_lt (hm_time (quiet_end office_config)) (hm_time (quiet_start office_config)) \<and>
   quiet_clock at_five = hm_time (quiet_end office_config) \<and>
   transport_ok at_five \<and>
   is_in_quiet_hours office_config (quiet_clock at_five) \<and>
   fst (send_signal at_five demo_pending \<lparr>cfg = office_config, outbox = []\<rparr>) = False"
  by (simp add: office_config_def default_config_def at_five_def send_signal_def
      is_in_quiet_hours_def hm_time_def time_lt_def time_le_def Let_def)

lemma delivered_same_policy:
  "same_policy c c' \<Longrightarrow> delivered c att = delivered c' att"
  by (simp add: same_policy_def delivered_def suppressed_def is_in_quiet_hours_def
      is_weekend_def)

lemma send_signal_result:
  "send_signal att sg n =
     (delivered (cfg n) att,
      if delivered (cfg n) att
      then n\<lparr>cfg := (cfg n)\<lparr>last_notification := Some (sent_clock att)\<rparr>,
              outbox := outbox n @ [sg]\<rparr>
      else n)"
  by (simp add: send_signal_def delivered_def suppressed_def Let_def)

lemma send_signal_policy:
  "same_policy (cfg (snd (send_signal att sg n))) (cfg n)"
  by (simp add: send_signal_result same_policy_def)

text \<open>What the loop of \<open>send_notifications\<close> does to the table, the outbox and the policy.\<close>

lemma notify_loop_effect:
  "rows (snd (notify_loop env sgs (n, tbl))) =
     map (\<lambda>r. if ts_id r \<in> p_id ` set sgs \<and> delivered (cfg n) (env (ts_id r))
                    \<and> mark_ok (env (ts_id r))
               then r\<lparr>ts_notified := True\<rparr> else r) (rows tbl)
   \<and> outbox (fst (notify_loop env sgs (n, tbl))) =
       outbox n @ filter (\<lambda>sg. delivered (cfg n) (env (p_id sg))) sgs
   \<and> same_policy (cfg (fst (notify_loop env sgs (n, tbl)))) (cfg n)"
proof (induction sgs arbitrary: n tbl)
  case Nil
  then show ?case by (simp add: same_policy_def)
next
  case (Cons sg sgs)
  let ?att = "env (p_id sg)"
  let ?n' = "snd (send_signal ?att sg n)"
  let ?tbl' = "if delivered (cfg n) ?att then mark_as_notified (mark_ok ?att) (p_id sg) tbl
               else tbl"
  have step: "notify_loop env (sg # sgs) (n, tbl) = notify_loop env sgs (?n', ?tbl')"
    by (simp add: send_signal_result)
  have pol: "same_policy (cfg ?n') (cfg n)"
    by (rule send_signal_policy)
  have del: "delivered (cfg ?n') a = delivered (cfg n) a" for a
    using delivered_same_policy[OF pol] .
  have ids: "map ts_id (rows ?tbl') = map ts_id (rows tbl)"
    by (simp add: mark_as_notified_def comp_def)
  have rows': "rows ?tbl' =
      map (\<lambda>r. if ts_id r = p_id sg \<and> delivered (cfg n) ?att \<and> mark_ok ?att
                then r\<lparr>ts_notified := True\<rparr> else r) (rows tbl)"
    by (simp add: mark_as_notified_def)
  have out: "outbox ?n' = outbox n @ filter (\<lambda>sg. delivered (cfg n) (env (p_id sg))) [sg]"
    by (simp add: send_signal_result)
  have r: "rows (snd (notify_loop env (sg # sgs) (n, tbl))) =
      map (\<lambda>r. if ts_id r \<in> p_id ` set (sg # sgs) \<and> delivered (cfg n) (env (ts_id r))
                    \<and> mark_ok (env (ts_id r))
               then r\<lparr>ts_notified := True\<rparr> else r) (rows tbl)"
    unfolding step using Cons.IH[of ?n' ?tbl', THEN conjunct1]
    by (simp only: rows' del) (auto simp add: comp_def)
  have o: "outbox (fst (notify_loop env (sg # sgs) (n, tbl))) =
       outbox n @ filter (\<lambda>sg. delivered (cfg n) (env (p_id sg))) (sg # sgs)"
    unfolding step using Cons.IH[of ?n' ?tbl', THEN conjunct2, THEN conjunct1] out
    by (simp add: del)
  have p: "same_policy (cfg (fst (notify_loop env (sg # sgs) (n, tbl)))) (cfg n)"
    unfolding step using Cons.IH[of ?n' ?tbl', THEN conjunct2, THEN conjunct2] pol
    by (simp add: same_policy_def)
  show ?case using r o p by blast
qed

lemma pending_ids:
  "p_id ` set (get_unnotified_signals True tbl) = unnotified_ids tbl"
  by (simp add: get_unnotified_signals_def unnotified_ids_def image_image)

lemma send_notifications_effect:
  "rows (snd (send_notifications q env (n, tbl))) =
     map (\<lambda>r. if q \<and> ts_id r \<in> unnotified_ids tbl \<and> delivered (cfg n) (env (ts_id r))
                    \<and> mark_ok (env (ts_id r))
               then r\<lparr>ts_notified := True\<rparr> else r) (rows tbl)
   \<and> outbox (fst (send_notifications q env (n, tbl))) =
       outbox n @ filter (\<lambda>sg. delivered (cfg n) (env (p_id sg)))
                    (get_unnotified_signals q tbl)
   \<and> same_policy (cfg (fst (send_notifications q env (n, tbl)))) (cfg n)"
proof (cases q)
  case True
  show ?thesis
  proof (cases "get_unnotified_signals True tbl = []")
    case e: True
    then have "unnotified_ids tbl = {}"
      using pending_ids[of tbl] by simp
    with e True show ?thesis
      by (simp add: send_notifications_def same_policy_def)
  next
    case False
    with True show ?thesis
      using notify_loop_effect[of env "get_unnotified_signals True tbl" n tbl]
      by (simp add: send_notifications_def pending_ids)
  qed
next
  case False
  then show ?thesis
    by (simp add: send_notifications_def get_unnotified_signals_def same_policy_def)
qed







lemma weekend_not_delivered:
  "weekends_enabled c \<Longrightarrow> \<not> collect_for_monday c \<Longrightarrow> 5 \<le> weekend_clock att
     \<Longrightarrow> \<not> delivered c att"
  by (simp add: delivered_def suppressed_def is_weekend_def)

lemma filter_id_map:
  assumes "\<And>r. ts_id (f r) = ts_id r" and "\<And>r. ts_id r = i \<Longrightarrow> f r = r"
  shows "filter (\<lambda>r. ts_id r = i) (map f xs) = filter (\<lambda>r. ts_id r = i) xs"
  using assms by (induction xs) auto

lemma unnotified_ids_filter:
  "i \<in> unnotified_ids tbl \<longleftrightarrow>
     (\<exists>r \<in> set (filter (\<lambda>r. ts_id r = i) (rows tbl)). \<not> ts_notified r)"
  by (auto simp add: unnotified_ids_def)

lemma send_notifications_withheld:
  assumes "\<not> delivered (cfg n) (env i)"
  shows "filter (\<lambda>r. ts_id r = i) (rows (snd (send_notifications q env (n, tbl)))) =
           filter (\<lambda>r. ts_id r = i) (rows tbl)
         \<and> (\<exists>extra. outbox (fst (send_notifications q env (n, tbl))) = outbox n @ extra
               \<and> i \<notin> p_id ` set extra)"
proof -
  let ?f = "\<lambda>r. if q \<and> ts_id r \<in> unnotified_ids tbl \<and> delivered (cfg n) (env (ts_id r))
                    \<and> mark_ok (env (ts_id r))
               then r\<lparr>ts_notified := True\<rparr> else r"
  have "filter (\<lambda>r. ts_id r = i) (map ?f (rows tbl)) = filter (\<lambda>r. ts_id r = i) (rows tbl)"
    by (rule filter_id_map) (use assms in auto)
  then have a: "filter (\<lambda>r. ts_id r = i) (rows (snd (send_notifications q env (n, tbl)))) =
           filter (\<lambda>r. ts_id r = i) (rows tbl)"
    using send_notifications_effect[of q env n tbl, THEN conjunct1] by simp
  let ?extra = "filter (\<lambda>sg. delivered (cfg n) (env (p_id sg))) (get_unnotified_signals q tbl)"
  have "outbox (fst (send_notifications q env (n, tbl))) = outbox n @ ?extra"
    using send_notifications_effect[of q env n tbl, THEN conjunct2, THEN conjunct1] .
  moreover have "i \<notin> p_id ` set ?extra"
    using assms by auto
  ultimately show ?thesis using a by blast
qed

lemma invocations_withheld:
  assumes "weekends_enabled (cfg n)" "\<not> collect_for_monday (cfg n)"
    and "\<forall>inv \<in> set invs. 5 \<le> weekend_clock (snd inv i)"
  shows "filter (\<lambda>r. ts_id r = i) (rows (snd (invocations invs (n, tbl)))) =
           filter (\<lambda>r. ts_id r = i) (rows tbl)
         \<and> (\<exists>extra. outbox (fst (invocations invs (n, tbl))) = outbox n @ extra
               \<and> i \<notin> p_id ` set extra)"
  using assms
proof (induction invs arbitrary: n tbl)
  case Nil
  then show ?case by simp
next
  case (Cons inv invs)
  obtain q env where inv: "inv = (q, env)" by (cases inv)
  obtain n1 tbl1 where s: "send_notifications q env (n, tbl) = (n1, tbl1)"
    by (cases "send_notifications q env (n, tbl)")
  have nd: "\<not> delivered (cfg n) (env i)"
    using weekend_not_delivered[OF Cons.prems(1,2), of "env i"] Cons.prems(3) inv by simp
  have pol: "same_policy (cfg n1) (cfg n)"
    using send_notifications_effect[of q env n tbl] s by simp
  then have p1: "weekends_enabled (cfg n1)" "\<not> collect_for_monday (cfg n1)"
    using Cons.prems(1,2) by (simp_all add: same_policy_def)
  have rest: "\<forall>inv \<in> set invs. 5 \<le> weekend_clock (snd inv i)"
    using Cons.prems(3) by simp
  have step: "filter (\<lambda>r. ts_id r = i) (rows tbl1) = filter (\<lambda>r. ts_id r = i) (rows tbl)"
    "\<exists>extra. outbox n1 = outbox n @ extra \<and> i \<notin> p_id ` set extra"
    using send_notifications_withheld[where n = n and env = env and i = i and q = q
        and tbl = tbl] nd s by simp_all
  then obtain e1 where e1: "outbox n1 = outbox n @ e1" "i \<notin> p_id ` set e1" by blast
  obtain e2 where e2: "outbox (fst (invocations invs (n1, tbl1))) = outbox n1 @ e2"
    "i \<notin> p_id ` set e2"
    using Cons.IH[OF p1 rest, of tbl1] by blast
  have "outbox (fst (invocations (inv # invs) (n, tbl))) = outbox n @ (e1 @ e2)"
    using e1 e2 s inv by simp
  moreover have "i \<notin> p_id ` set (e1 @ e2)"
    using e1 e2 by auto
  moreover have "filter (\<lambda>r. ts_id r = i) (rows (snd (invocations (inv # invs) (n, tbl)))) =
           filter (\<lambda>r. ts_id r = i) (rows tbl)"
    using Cons.IH[OF p1 rest, of tbl1] step(1) s inv by simp
  ultimately show ?case by blast
qed

text \<open>
  C7.  With weekend suppression enabled and \<open>collect_for_monday\<close> false, a signal that
  is not yet notified and whose every delivery attempt, over any sequence of runs of the
  job, falls on a Saturday or Sunday is never sent: after the runs its rows are as they
  were, it is still not notified, and the outbox has gained no message for it.
\<close>

theorem weekend_withheld:
  assumes "weekends_enabled (cfg n)" "\<not> collect_for_monday (cfg n)"
    and "\<forall>inv \<in> set invs. 5 \<le> weekend_clock (snd inv i)"
    and "invocations invs (n, tbl) = (n', tbl')"
    and "i \<in> unnotified_ids tbl"
  shows "i \<in> unnotified_ids tbl' \<and> i \<notin> sent_since n n' \<and>
         filter (\<lambda>r. ts_id r = i) (rows tbl') = filter (\<lambda>r. ts_id r = i) (rows tbl)"
proof -
  have f: "filter (\<lambda>r. ts_id r = i) (rows tbl') = filter (\<lambda>r. ts_id r = i) (rows tbl)"
    using invocations_withheld[OF assms(1,2,3), of tbl] assms(4) by simp
  obtain extra where e: "outbox n' = outbox n @ extra" "i \<notin> p_id ` set extra"
    using invocations_withheld[OF assms(1,2,3), of tbl] assms(4) by auto
  have "i \<in> unnotified_ids tbl'"
    using assms(5) f unnotified_ids_filter[of i tbl] unnotified_ids_filter[of i tbl'] by simp
  moreover have "i \<notin> sent_since n n'"
    using e by (simp add: sent_since_def)
  ultimately show ?thesis using f by simp
qed

theorem weekend_withheld_witness:
  "weekends_enabled (cfg strict_notifier) \<and> \<not> collect_for_monday (cfg strict_notifier) \<and>
   1 \<in> unnotified_ids demo_table \<and>
   1 \<in> unnotified_ids (snd (invocations [(True, saturday), (True, sunday), (True, saturday)]
          (strict_notifier, demo_table))) \<and>
   1 \<notin> sent_since strict_notifier
          (fst (invocations [(True, saturday), (True, sunday), (True, saturday)]
            (strict_notifier, demo_table)))"
proof -
  have p: "weekends_enabled (cfg strict_notifier)" "\<not> collect_for_monday (cfg strict_notifier)"
    by (simp_all add: strict_notifier_def default_config_def)
  have w: "\<forall>inv \<in> set [(True, saturday), (True, sunday), (True, saturday)].
      5 \<le> weekend_clock (snd inv 1)"
    by (simp add: saturday_def sunday_def)
  have u: "1 \<in> unnotified_ids demo_table"
    by (simp add: unnotified_ids_def demo_table_def)
  obtain n' tbl' where r: "invocations [(True, saturday), (True, sunday), (True, saturday)]
      (strict_notifier, demo_table) = (n', tbl')"
    by (cases "invocations [(True, saturday), (True, sunday), (True, saturday)]
      (strict_notifier, demo_table)")
  show ?thesis
    using weekend_withheld[OF p w r u] p u r by simp
qed

section \<open>Properties of the stream processor\<close>

lemma process_items_bounds:
  "process_items f items (res, l) = (res', l') \<Longrightarrow>
     l \<le> l' \<and>
     res_id ` set res' \<subseteq> res_id ` set res \<union> news_id ` {i \<in> set items. accepted f i}"
proof (induction items arbitrary: res l)
  case Nil
  then show ?case by simp
next
  case (Cons item items)
  show ?case
  proof (cases "news_id item > l")
    case True
    show ?thesis
    proof (cases "f (news_title item @ '' '' @ news_summary item)")
      case None
      with True Cons.prems have "process_items f items (res, l) = (res', l')" by simp
      from Cons.IH[OF this] show ?thesis by auto
    next
      case (Some s)
      with True Cons.prems have
        "process_items f items
           (res @ [\<lparr>res_id = news_id item, res_symbol = news_symbol item,
                     res_sentiment = s\<rparr>], news_id item) = (res', l')"
        by simp
      from Cons.IH[OF this] True Some show ?thesis
        by (auto simp add: accepted_def)
    qed
  next
    case False
    with Cons.prems have "process_items f items (res, l) = (res', l')" by simp
    from Cons.IH[OF this] show ?thesis by auto
  qed
qed

lemma deliver_fields:
  "last_news_id (deliver sg st) = last_news_id st"
  "last_processed_id (deliver sg st) = last_processed_id st"
  "processor_checkpoint (deliver sg st) = processor_checkpoint st"
  by (simp_all add: deliver_def handle_interrupt_def handle_terminate_def
      split: option.splits os_signal.splits)

lemma analyzer_save_fields:
  "last_news_id (analyzer_save_checkpoint env st) = last_news_id st"
  "last_processed_id (analyzer_save_checkpoint env st) = last_processed_id st"
  "processor_checkpoint (analyzer_save_checkpoint env st) = processor_checkpoint st"
  "pause_event (analyzer_save_checkpoint env st) = pause_event st"
  by (simp_all add: analyzer_save_checkpoint_def)

lemma process_batch_bounds:
  assumes "process_batch env batch res st = (res', st')"
  shows "last_news_id st' = last_news_id st"
    and "processor_checkpoint st' = processor_checkpoint st"
    and "pause_event st' = pause_event st"
    and "last_processed_id st \<le> last_processed_id st'"
    and "res_id ` set res' \<subseteq>
           res_id ` set res \<union> news_id ` {i \<in> set batch. accepted (classifier env) i}"
    and "process_items (classifier env) batch (res, last_processed_id st)
           = (res', last_processed_id st')"
proof -
  obtain r l where p: "process_items (classifier env) batch (res, last_processed_id st) = (r, l)"
    by (cases "process_items (classifier env) batch (res, last_processed_id st)")
  with assms have e: "res' = r"
    "st' = analyzer_save_checkpoint env (st\<lparr>last_processed_id := l\<rparr>)"
    by (simp_all add: process_batch_def)
  show "last_news_id st' = last_news_id st" "processor_checkpoint st' = processor_checkpoint st"
    "pause_event st' = pause_event st"
    by (simp_all add: e analyzer_save_fields)
  show "last_processed_id st \<le> last_processed_id st'"
    using process_items_bounds[OF p] by (simp add: e analyzer_save_fields)
  show "res_id ` set res' \<subseteq>
           res_id ` set res \<union> news_id ` {i \<in> set batch. accepted (classifier env) i}"
    using process_items_bounds[OF p] by (simp add: e)
  show "process_items (classifier env) batch (res, last_processed_id st)
           = (res', last_processed_id st')"
    using p by (simp add: e analyzer_save_fields)
qed

lemma process_batches_bounds:
  "process_batches env bs k items res st = (res', st') \<Longrightarrow>
     last_news_id st' = last_news_id st \<and>
     processor_checkpoint st' = processor_checkpoint st \<and>
     last_processed_id st \<le> last_processed_id st' \<and>
     res_id ` set res' \<subseteq>
       res_id ` set res \<union> news_id ` {i \<in> set items. accepted (classifier env) i}"
proof (induction env bs k items res st arbitrary: res' st' rule: process_batches.induct)
  case (1 env bs k items res st)
  let ?st = "deliver (arriving env k) st"
  show ?case
  proof (cases "items = [] \<or> bs = 0")
    case True
    with "1.prems" show ?thesis
      by (simp add: process_batches.simps[of env bs k items res st])
  next
    case False
    show ?thesis
    proof (cases "pause_event ?st")
      case True
      with False "1.prems" show ?thesis
        by (auto simp add: process_batches.simps[of env bs k items res st]
            analyzer_save_fields deliver_fields)
    next
      case np: False
      obtain r1 s1 where b: "process_batch env (take bs items) res ?st = (r1, s1)"
        by (cases "process_batch env (take bs items) res ?st")
      have rec: "process_batches env bs (Suc k) (drop bs items) r1 s1 = (res', st')"
        using False np b "1.prems"
        by (simp add: process_batches.simps[of env bs k items res st])
      have ih: "last_news_id st' = last_news_id s1 \<and>
          processor_checkpoint st' = processor_checkpoint s1 \<and>
          last_processed_id s1 \<le> last_processed_id st' \<and>
          res_id ` set res' \<subseteq>
            res_id ` set r1 \<union> news_id ` {i \<in> set (drop bs items). accepted (classifier env) i}"
        using "1.IH"[OF False np b[symmetric] rec] .
      define R where "R = res_id ` set res"
      define R1 where "R1 = res_id ` set r1"
      define R' where "R' = res_id ` set res'"
      define T where "T = news_id ` {i \<in> set (take bs items). accepted (classifier env) i}"
      define D where "D = news_id ` {i \<in> set (drop bs items). accepted (classifier env) i}"
      define A where "A = news_id ` {i \<in> set items. accepted (classifier env) i}"
      have "T \<subseteq> A"
        unfolding T_def A_def using set_take_subset[of bs items] by (intro image_mono) auto
      moreover have "D \<subseteq> A"
        unfolding D_def A_def using set_drop_subset[of bs items] by (intro image_mono) auto
      moreover have "R' \<subseteq> R1 \<union> D"
        unfolding R'_def R1_def D_def using ih by simp
      moreover have "R1 \<subseteq> R \<union> T"
        unfolding R1_def R_def T_def using process_batch_bounds(5)[OF b] .
      ultimately have "R' \<subseteq> R \<union> A"
        by blast
      then have sub: "res_id ` set res' \<subseteq>
          res_id ` set res \<union> news_id ` {i \<in> set items. accepted (classifier env) i}"
        unfolding R'_def R_def A_def .
      have f1: "last_news_id st' = last_news_id st"
        using ih process_batch_bounds(1)[OF b] by (simp add: deliver_fields)
      have f2: "processor_checkpoint st' = processor_checkpoint st"
        using ih process_batch_bounds(2)[OF b] by (simp add: deliver_fields)
      have "last_processed_id ?st \<le> last_processed_id s1"
        using process_batch_bounds(4)[OF b] .
      then have f3: "last_processed_id st \<le> last_processed_id st'"
        using ih by (simp add: deliver_fields)
      show ?thesis
        using sub f1 f2 f3 by simp
    qed
  qed
qed

lemma advances_refl: "advances st st"
  by (simp add: advances_def split: option.splits)

lemma advances_trans: "advances a b \<Longrightarrow> advances b c \<Longrightarrow> advances a c"
  by (auto simp add: advances_def split: option.splits)

lemma advances_same_checkpoint:
  assumes "last_news_id st' = last_news_id st"
    and "processor_checkpoint st' = processor_checkpoint st"
    and "last_processed_id st \<le> last_processed_id st'"
  shows "advances st st'"
  using assms
  by (auto simp add: advances_def checkpoint_consistent_def persisted_def split: option.splits)

lemma advances_flags:
  "advances st (st\<lparr>pause_event := p\<rparr>)" "advances st (st\<lparr>shutdown_flag := q\<rparr>)"
  by (rule advances_same_checkpoint; simp)+

lemma advances_deliver: "advances st (deliver sg st)"
  by (rule advances_same_checkpoint) (simp_all add: deliver_fields)

lemma advances_save_checkpoint: "advances st (save_checkpoint ok st)"
  by (auto simp add: save_checkpoint_def advances_def checkpoint_consistent_def persisted_def
      split: option.splits)

lemma fetch_above_checkpoint:
  "item \<in> set (fetch_unprocessed_news env st) \<Longrightarrow> last_news_id st < news_id item"
  by (auto simp add: fetch_unprocessed_news_def split: if_splits)

lemma advances_save_results:
  assumes "\<forall>r \<in> set results. last_news_id st < res_id r"
  shows "advances st (save_sentiment_results env results st)"
proof (cases "results = [] \<or> \<not> store_ok env")
  case True
  then show ?thesis by (auto simp add: save_sentiment_results_def advances_refl)
next
  case False
  let ?m = "Max (set (map res_id results))"
  have "?m \<in> set (map res_id results)"
    using False by (intro Max_in) simp_all
  then have m: "last_news_id st < ?m"
    using assms by auto
  show ?thesis
    using False m
    by (auto simp add: save_sentiment_results_def save_checkpoint_def advances_def
        checkpoint_consistent_def persisted_def split: option.splits)
qed

lemma advances_process_pass: "advances st (process_pass env batch_size st)"
proof -
  let ?news = "fetch_unprocessed_news env st"
  show ?thesis
  proof (cases "pause_event st \<or> ?news = [] \<or> batch_size = 0")
    case True
    then show ?thesis
      by (auto simp add: process_pass_def process_news_batch_def Let_def advances_refl)
  next
    case False
    show ?thesis
    proof (cases "batch_size < 0")
      case True
      with False show ?thesis
        by (simp add: process_pass_def process_news_batch_def Let_def
            save_sentiment_results_def advances_refl)
    next
      case pos: False
      obtain results st1 where
        b: "process_batches env (nat batch_size) 0 ?news [] st = (results, st1)"
        by (cases "process_batches env (nat batch_size) 0 ?news [] st")
      have p: "process_pass env batch_size st = save_sentiment_results env results st1"
        using False pos b by (simp add: process_pass_def process_news_batch_def Let_def)
      note bb = process_batches_bounds[OF b]
      have one: "advances st st1"
        using bb by (intro advances_same_checkpoint) simp_all
      have "\<forall>r \<in> set results. last_news_id st < res_id r"
        using bb fetch_above_checkpoint[of _ env st] by auto
      then have "\<forall>r \<in> set results. last_news_id st1 < res_id r"
        using bb by simp
      then have two: "advances st1 (save_sentiment_results env results st1)"
        by (rule advances_save_results)
      show ?thesis
        unfolding p using one two by (rule advances_trans)
    qed
  qed
qed

lemma advances_exec: "advances st (exec op st)"
proof (cases op)
  case (Pass env batch_size)
  then show ?thesis by (simp add: advances_process_pass advances_refl)
next
  case (Deliver sg)
  then show ?thesis by (simp add: advances_deliver)
next
  case Resume
  then show ?thesis by (simp add: advances_flags)
next
  case Pause
  then show ?thesis by (simp add: advances_flags)
next
  case (Shutdown ok)
  have "advances st (st\<lparr>pause_event := True\<rparr>)" by (rule advances_flags)
  moreover have "advances (st\<lparr>pause_event := True\<rparr>) (st\<lparr>pause_event := True, shutdown_flag := True\<rparr>)"
    by (rule advances_flags)
  moreover have "advances (st\<lparr>pause_event := True, shutdown_flag := True\<rparr>)
      (save_checkpoint ok (st\<lparr>pause_event := True, shutdown_flag := True\<rparr>))"
    by (rule advances_save_checkpoint)
  ultimately show ?thesis
    using Shutdown advances_trans by (metis exec.simps(5))
qed

lemma advances_run: "advances st (run ops st)"
proof (induction ops arbitrary: st)
  case Nil
  then show ?case by (simp add: advances_refl)
next
  case (Cons op ops)
  have "advances st (exec op st)" by (rule advances_exec)
  moreover have "advances (exec op st) (run ops (exec op st))" by (rule Cons.IH)
  ultimately show ?case using advances_trans by simp
qed

text \<open>
  C5.  Over every sequence of operations of one process lifetime (passes of the main
  loop with their fetch, scoring and save, signals, pause, resume, shutdown) the
  checkpoint value \<open>last_news_id\<close> never decreases, and neither does the analyzer's
  \<open>last_processed_id\<close>; this holds for each single operation too.  A checkpoint file
  that starts no further than the value in memory is never removed and the key it holds
  never decreases.
\<close>

theorem checkpoint_monotone:
  "last_news_id st \<le> last_news_id (exec op st) \<and>
   last_news_id st \<le> last_news_id (run ops st) \<and>
   last_processed_id st \<le> last_processed_id (run ops st) \<and>
   (checkpoint_consistent st \<longrightarrow>
      checkpoint_consistent (run ops st) \<and>
      (\<forall>i. persisted st = Some i \<longrightarrow> (\<exists>j. persisted (run ops st) = Some j \<and> i \<le> j)))"
  using advances_exec[of st op] advances_run[of st ops]
  by (auto simp add: advances_def split: option.splits)

theorem checkpoint_monotone_witness:
  "checkpoint_consistent (save_checkpoint True fresh) \<and>
   persisted (save_checkpoint True fresh) = Some 0 \<and>
   last_news_id (save_checkpoint True fresh)
     \<le> last_news_id (run [Pass two_env 10, Pause, Pass two_env 10, Resume,
                             Deliver SIGTERM, Shutdown True] (save_checkpoint True fresh)) \<and>
   (\<exists>j. persisted (run [Pass two_env 10, Pause, Pass two_env 10, Resume,
                          Deliver SIGTERM, Shutdown True] (save_checkpoint True fresh)) = Some j
        \<and> 0 \<le> j)"
proof -
  have c: "checkpoint_consistent (save_checkpoint True fresh)"
    "persisted (save_checkpoint True fresh) = Some 0"
    by (simp_all add: checkpoint_consistent_def persisted_def save_checkpoint_def fresh_def)
  show ?thesis
    using checkpoint_monotone[of "save_checkpoint True fresh" Pause
        "[Pass two_env 10, Pause, Pass two_env 10, Resume, Deliver SIGTERM, Shutdown True]"] c
    by simp
qed

lemma process_items_append:
  "process_items f (xs @ ys) (res, l) = process_items f ys (process_items f xs (res, l))"
  by (induction xs arbitrary: res l) (simp_all split: option.splits)

lemma process_batches_no_signal:
  "(\<forall>j. arriving env j = None) \<Longrightarrow> \<not> pause_event st \<Longrightarrow> 0 < bs \<Longrightarrow>
     fst (process_batches env bs k items res st) =
       fst (process_items (classifier env) items (res, last_processed_id st))"
proof (induction env bs k items res st rule: process_batches.induct)
  case (1 env bs k items res st)
  have d: "deliver (arriving env k) st = st"
    using "1.prems"(1) by (simp add: deliver_def)
  show ?case
  proof (cases "items = []")
    case True
    then show ?thesis
      by (simp add: process_batches.simps[of env bs k "[]" res st])
  next
    case False
    obtain r1 s1 where b: "process_batch env (take bs items) res st = (r1, s1)"
      by (cases "process_batch env (take bs items) res st")
    have c: "\<not> (items = [] \<or> bs = 0)" "\<not> pause_event (deliver (arriving env k) st)"
      using False "1.prems" d by simp_all
    have b': "(r1, s1) = process_batch env (take bs items) res (deliver (arriving env k) st)"
      using b d by simp
    have np: "\<not> pause_event s1"
      using process_batch_bounds(3)[OF b] "1.prems"(2) by simp
    have ih: "fst (process_batches env bs (Suc k) (drop bs items) r1 s1) =
        fst (process_items (classifier env) (drop bs items) (r1, last_processed_id s1))"
      using "1.IH"[OF c b' "1.prems"(1) np "1.prems"(3)] .
    have unfold: "process_batches env bs k items res st =
        process_batches env bs (Suc k) (drop bs items) r1 s1"
      using c b d by (simp add: process_batches.simps[of env bs k items res st])
    have "process_items (classifier env) items (res, last_processed_id st) =
        process_items (classifier env) (drop bs items)
          (process_items (classifier env) (take bs items) (res, last_processed_id st))"
      using process_items_append[of "classifier env" "take bs items" "drop bs items" res
          "last_processed_id st"]
      by simp
    also have "\<dots> = process_items (classifier env) (drop bs items) (r1, last_processed_id s1)"
      using process_batch_bounds(6)[OF b] by simp
    finally show ?thesis
      using ih unfold by simp
  qed
qed

lemma process_items_ascending:
  assumes "sorted_wrt (<) (map news_id items)" and "\<forall>i \<in> set items. l < news_id i"
  shows "map res_id (fst (process_items f items (res, l))) =
           map res_id res @ map news_id (filter (accepted f) items)"
  using assms
proof (induction items arbitrary: res l)
  case Nil
  then show ?case by simp
next
  case (Cons item items)
  have first: "l < news_id item" using Cons.prems(2) by simp
  have srt: "sorted_wrt (<) (map news_id items)" using Cons.prems(1) by simp
  have above: "\<forall>i \<in> set items. news_id item < news_id i" using Cons.prems(1) by simp
  show ?case
  proof (cases "f (news_title item @ '' '' @ news_summary item)")
    case None
    have rest: "\<forall>i \<in> set items. l < news_id i" using Cons.prems(2) by simp
    show ?thesis
      using None first Cons.IH[OF srt rest, of res] by (simp add: accepted_def)
  next
    case (Some s)
    show ?thesis
      using Some first Cons.IH[OF srt above,
          of "res @ [\<lparr>res_id = news_id item, res_symbol = news_symbol item,
                       res_sentiment = s\<rparr>]"]
      by (simp add: accepted_def)
  qed
qed

lemma fetch_ascending:
  assumes "distinct (map news_id (news_data env))"
  shows "sorted_wrt (<) (map news_id (fetch_unprocessed_news env st))"
proof (cases "fetch_ok env")
  case True
  let ?xs = "filter (\<lambda>item. news_id item > last_news_id st) (news_data env)"
  have "distinct (map news_id ?xs)"
    using assms by (rule distinct_map_filter)
  then have "distinct (map news_id (sort_key news_id ?xs))"
    by (simp add: distinct_map)
  moreover have "sorted (map news_id (sort_key news_id ?xs))"
    by (rule sorted_sort_key)
  ultimately show ?thesis
    using True by (simp add: fetch_unprocessed_news_def strict_sorted_iff)
next
  case False
  then show ?thesis by (simp add: fetch_unprocessed_news_def)
qed

lemma fetch_after:
  assumes "last_news_id st \<le> last_news_id st'"
  shows "fetch_unprocessed_news env st' =
           filter (\<lambda>item. last_news_id st' < news_id item) (fetch_unprocessed_news env st)"
proof (cases "fetch_ok env")
  case True
  have "filter (\<lambda>item. last_news_id st' < news_id item)
          (filter (\<lambda>item. last_news_id st < news_id item) (news_data env)) =
        filter (\<lambda>item. last_news_id st' < news_id item) (news_data env)"
    using assms by (auto intro: filter_cong)
  then show ?thesis
    using True by (simp add: fetch_unprocessed_news_def filter_sort)
next
  case False
  then show ?thesis by (simp add: fetch_unprocessed_news_def)
qed

lemma scored_ids_results:
  assumes "scored_ids env bs st \<noteq> {}"
  obtains results st1 where "0 < bs"
    and "process_batches env (nat bs) 0 (fetch_unprocessed_news env st) [] st = (results, st1)"
    and "scored_ids env bs st = res_id ` set results"
    and "results \<noteq> []" and "fetch_unprocessed_news env st \<noteq> []"
proof -
  let ?news = "fetch_unprocessed_news env st"
  have pos: "0 < bs"
    using assms by (cases "bs = 0"; cases "bs < 0")
      (simp_all add: scored_ids_def process_news_batch_def)
  obtain results st1 where b: "process_batches env (nat bs) 0 ?news [] st = (results, st1)"
    by (cases "process_batches env (nat bs) 0 ?news [] st")
  have ids: "scored_ids env bs st = res_id ` set results"
    using pos b by (simp add: scored_ids_def process_news_batch_def)
  have ne: "results \<noteq> []" using assms ids by auto
  have "?news \<noteq> []"
  proof
    assume "?news = []"
    then have "results = []"
      using b by (simp add: process_batches.simps[of env "nat bs" 0 "[]" "[]" st])
    with ne show False by simp
  qed
  with pos b ids ne show ?thesis using that by blast
qed

text \<open>
  C2, as the code has it.  In a pass that scores at least one item and whose results the
  store and the checkpoint file accept, the checkpoint after the pass, in memory and in
  the file, is the greatest key among the items scored in the pass, and every scored
  item is a fetched item that the classifier accepted.  The next fetch over the same
  table returns exactly the fetched items whose key is greater than that checkpoint: an
  item that failed scoring is attempted again only if its key is greater than the key of
  every item scored in the pass.  When no signal arrives during the pass, the keys of
  the table are distinct and the analyzer's checkpoint is no further than the
  processor's, the scored items are all the fetched items that the classifier accepts.
\<close>

theorem pass_checkpoint:
  assumes "store_ok env" and "file_ok env" and "\<not> pause_event st"
    and "scored_ids env bs st \<noteq> {}"
  shows "last_news_id (process_pass env bs st) = Max (scored_ids env bs st) \<and>
         persisted (process_pass env bs st) = Some (Max (scored_ids env bs st)) \<and>
         scored_ids env bs st \<subseteq>
           news_id ` {item \<in> set (fetch_unprocessed_news env st).
                        accepted (classifier env) item} \<and>
         fetch_unprocessed_news env (process_pass env bs st) =
           filter (\<lambda>item. Max (scored_ids env bs st) < news_id item)
             (fetch_unprocessed_news env st) \<and>
         ((\<forall>k. arriving env k = None) \<and> distinct (map news_id (news_data env)) \<and>
          last_processed_id st \<le> last_news_id st \<longrightarrow>
            scored_ids env bs st =
              news_id ` {item \<in> set (fetch_unprocessed_news env st).
                           accepted (classifier env) item})"
proof -
  let ?news = "fetch_unprocessed_news env st"
  obtain results st1 where pos: "0 < bs"
    and b: "process_batches env (nat bs) 0 ?news [] st = (results, st1)"
    and ids: "scored_ids env bs st = res_id ` set results"
    and ne: "results \<noteq> []" and news: "?news \<noteq> []"
    using scored_ids_results[OF assms(4)] by metis
  have p: "process_pass env bs st = save_sentiment_results env results st1"
    using assms(3) pos news b by (simp add: process_pass_def process_news_batch_def Let_def)
  have m: "last_news_id (process_pass env bs st) = Max (scored_ids env bs st)"
    using assms(1) ne by (simp add: p ids save_sentiment_results_def save_checkpoint_def)
  have f: "persisted (process_pass env bs st) = Some (Max (scored_ids env bs st))"
    using assms(1,2) ne
    by (simp add: p ids save_sentiment_results_def save_checkpoint_def persisted_def)
  have sub: "scored_ids env bs st \<subseteq>
      news_id ` {item \<in> set ?news. accepted (classifier env) item}"
    using process_batches_bounds[OF b] by (simp add: ids)
  have "last_news_id st \<le> last_news_id (process_pass env bs st)"
    using advances_process_pass[of st env bs] by (simp add: advances_def)
  then have nxt: "fetch_unprocessed_news env (process_pass env bs st) =
      filter (\<lambda>item. Max (scored_ids env bs st) < news_id item) ?news"
    using fetch_after[of st "process_pass env bs st" env] by (simp add: m)
  have all: "scored_ids env bs st =
      news_id ` {item \<in> set ?news. accepted (classifier env) item}"
    if quiet: "\<forall>k. arriving env k = None"
      and dist: "distinct (map news_id (news_data env))"
      and behind: "last_processed_id st \<le> last_news_id st"
  proof -
    have "results = fst (process_items (classifier env) ?news ([], last_processed_id st))"
      using process_batches_no_signal[OF quiet assms(3), of "nat bs" 0 ?news "[]"] pos b
      by simp
    moreover have "\<forall>i \<in> set ?news. last_processed_id st < news_id i"
      using fetch_above_checkpoint[of _ env st] behind by fastforce
    ultimately have "map res_id results =
        map news_id (filter (accepted (classifier env)) ?news)"
      using process_items_ascending[OF fetch_ascending[OF dist, of st], of
          "last_processed_id st" "classifier env" "[]"]
      by simp
    then have "set (map res_id results) =
        set (map news_id (filter (accepted (classifier env)) ?news))"
      by simp
    then show ?thesis
      by (simp add: ids)
  qed
  show ?thesis
    using m f sub nxt all by blast
qed

lemma two_env_fetch:
  "fetch_unprocessed_news two_env fresh = [first_item, second_item]"
  by (simp add: fetch_unprocessed_news_def two_env_def fresh_def first_item_def
      second_item_def)

lemma two_env_pass:
  "process_batches two_env 10 0 [first_item, second_item] [] fresh =
     ([\<lparr>res_id = 2, res_symbol = ''AAPL'',
        res_sentiment = \<lparr>score_negative = 0.1, score_neutral = 0.2, score_positive = 0.7,
                          dominant_sentiment = ''positive'', confidence = 0.7\<rparr>\<rparr>],
      fresh\<lparr>last_processed_id := 2, sentiment_checkpoint := Some 2\<rparr>)"
  by (simp add: process_batches.simps process_batch_def analyzer_save_checkpoint_def
      deliver_def two_env_def fresh_def first_item_def second_item_def)

lemma two_env_scored: "scored_ids two_env 10 fresh = {2}"
  by (simp add: scored_ids_def process_news_batch_def two_env_fetch two_env_pass)

theorem pass_checkpoint_witness:
  "store_ok two_env \<and> file_ok two_env \<and> \<not> pause_event fresh \<and>
   scored_ids two_env 10 fresh = {2} \<and>
   last_news_id (process_pass two_env 10 fresh) = 2 \<and>
   persisted (process_pass two_env 10 fresh) = Some 2 \<and>
   fetch_unprocessed_news two_env (process_pass two_env 10 fresh) = []"
proof -
  have h: "store_ok two_env" "file_ok two_env" "\<not> pause_event fresh"
    by (simp_all add: two_env_def fresh_def)
  have s: "scored_ids two_env 10 fresh \<noteq> {}"
    by (simp add: two_env_scored)
  show ?thesis
    using pass_checkpoint[OF h s] h
    by (simp add: two_env_scored two_env_fetch first_item_def second_item_def)
qed

text \<open>
  C2 as stated fails.  The first of two fetched items fails scoring and the second is
  scored: after the pass the checkpoint, in memory and in the file, is the key of the
  second item, which is past the failed first item, and the next fetch over the same
  table is empty, so the failed item is not attempted again.
\<close>

theorem failed_item_skipped_counterexample:
  "fetch_unprocessed_news two_env fresh = [first_item, second_item] \<and>
   \<not> accepted (classifier two_env) first_item \<and>
   accepted (classifier two_env) second_item \<and>
   news_id first_item < last_news_id (process_pass two_env 10 fresh) \<and>
   persisted (process_pass two_env 10 fresh) = Some 2 \<and>
   fetch_unprocessed_news two_env (process_pass two_env 10 fresh) = []"
proof -
  have p: "process_pass two_env 10 fresh =
      save_sentiment_results two_env
        [\<lparr>res_id = 2, res_symbol = ''AAPL'',
          res_sentiment = \<lparr>score_negative = 0.1, score_neutral = 0.2, score_positive = 0.7,
                            dominant_sentiment = ''positive'', confidence = 0.7\<rparr>\<rparr>]
        (fresh\<lparr>last_processed_id := 2, sentiment_checkpoint := Some 2\<rparr>)"
    by (simp add: process_pass_def process_news_batch_def two_env_fetch two_env_pass Let_def)
      (simp add: fresh_def)
  have e: "store_ok two_env" "file_ok two_env" "fetch_ok two_env"
    "news_data two_env = [first_item, second_item]"
    by (simp_all add: two_env_def)
  have l: "last_news_id (process_pass two_env 10 fresh) = 2"
    "persisted (process_pass two_env 10 fresh) = Some 2"
    by (simp_all add: p save_sentiment_results_def save_checkpoint_def persisted_def e)
  have a: "\<not> accepted (classifier two_env) first_item"
    "accepted (classifier two_env) second_item"
    by (simp_all add: accepted_def two_env_def first_item_def second_item_def)
  have n: "fetch_unprocessed_news two_env (process_pass two_env 10 fresh) = []"
    by (simp add: fetch_unprocessed_news_def l e first_item_def second_item_def)
  show ?thesis
    using two_env_fetch a l n by (simp add: first_item_def)
qed

section \<open>Properties of the process supervisor\<close>

lemma check_loop_shape:
  "check_loop procs ss acc = Some status \<Longrightarrow>
     status = acc @ map (\<lambda>(key, script).
                (key @ ''_running'', if scan procs script = Some True then 1 else 0)) ss"
proof (induction ss arbitrary: acc)
  case Nil
  then show ?case by simp
next
  case (Cons s ss)
  obtain key script where s: "s = (key, script)" by (cases s)
  show ?case
  proof (cases "scan procs script")
    case None
    with Cons.prems s show ?thesis by simp
  next
    case (Some running)
    with Cons.prems s have
      "check_loop procs ss (acc @ [(key @ ''_running'', if running then 1 else 0)])
         = Some status"
      by simp
    from Cons.IH[OF this] Some s show ?thesis by simp
  qed
qed

lemma check_processes_shape:
  assumes "check_processes procs = Some status"
  shows "status =
     [(''data_collector_running'', if scan procs ''run_collector.py'' = Some True then 1 else 0),
      (''technical_analyzer_running'',
         if scan procs ''run_technical_analysis.py'' = Some True then 1 else 0),
      (''signal_generator_running'',
         if scan procs ''run_signal_generator.py'' = Some True then 1 else 0),
      (''notifier_running'', if scan procs ''run_notifier.py'' = Some True then 1 else 0)]"
  using check_loop_shape[of procs script_names "[]" status] assms
  by (simp add: check_processes_def script_names_def)

lemma restart_process_calls:
  "restart_calls (snd (restart_process h script st)) = restart_calls st @ [script]"
  "system_status (snd (restart_process h script st)) = system_status st"
  by (simp_all add: restart_process_def Let_def)

lemma restart_loop_calls:
  "restart_calls (restart_loop h status m st) =
     restart_calls st @
       map snd (filter (\<lambda>(status_key, script). dict_get status status_key 0 = 0) m)
   \<and> system_status (restart_loop h status m st) = system_status st"
proof (induction m arbitrary: st)
  case Nil
  then show ?case by simp
next
  case (Cons e m)
  obtain status_key script where e: "e = (status_key, script)" by (cases e)
  show ?case
    using Cons.IH[of "snd (restart_process h script st)"] Cons.IH[of st] e
    by (simp add: restart_process_calls)
qed

lemma save_status_calls:
  "restart_calls (snd (save_status res procs db_ok now st)) = restart_calls st"
  by (simp add: save_status_def split: option.splits prod.splits)

lemma status_four:
  assumes "check_processes procs = Some status"
  obtains a b c d where
    "status = [(''data_collector_running'', a), (''technical_analyzer_running'', b),
               (''signal_generator_running'', c), (''notifier_running'', d)]"
  using check_processes_shape[OF assms] by blast

lemma not_running_four:
  "not_running [(''data_collector_running'', a), (''technical_analyzer_running'', b),
                (''signal_generator_running'', c), (''notifier_running'', d)] =
     (if a = 0 then [''run_collector.py''] else []) @
     (if b = 0 then [''run_technical_analysis.py''] else []) @
     (if c = 0 then [''run_signal_generator.py''] else []) @
     (if d = 0 then [''run_notifier.py''] else [])"
  by (simp add: not_running_def script_mapping_def dict_get_def)

text \<open>
  C9.  In a poll whose two process checks succeed, the calls of \<open>restart_process\<close> are
  exactly the scripts of the roles that the check reports as not running, in the order
  of the mapping: as many calls as roles reported not running among the four, no script
  twice, and a role's script is called exactly when that role is reported not running.
  When the resource check succeeds and the store accepts the insert, the poll appends
  one row to \<open>system_status\<close> holding the four liveness values that the process check of
  \<open>save_status\<close> returned; the two checks agree when they read the same process table.
\<close>

theorem supervisor_poll:
  assumes "check_processes procs_at_save = Some seen"
    and "check_processes procs_at_check = Some status"
  shows "restart_calls (run_monitoring res procs_at_save procs_at_check db_ok now h st) =
           restart_calls st @ not_running status \<and>
         length status = 4 \<and>
         length (not_running status) = length (filter (\<lambda>kv. snd kv = 0) status) \<and>
         distinct (not_running status) \<and>
         (\<forall>m \<in> set script_mapping.
            (snd m \<in> set (not_running status)) = (dict_get status (fst m) 0 = 0)) \<and>
         system_status (run_monitoring (Some r) procs_at_save procs_at_check True now h st) =
           system_status st @
             [\<lparr>sr_timestamp = now, sr_cpu_usage = cpu_usage r,
               sr_memory_usage = memory_usage r, sr_disk_usage = disk_usage r,
               sr_db_size = db_size r,
               data_collector_running = dict_get seen ''data_collector_running'' 0,
               technical_analyzer_running = dict_get seen ''technical_analyzer_running'' 0,
               signal_generator_running = dict_get seen ''signal_generator_running'' 0,
               notifier_running = dict_get seen ''notifier_running'' 0\<rparr>] \<and>
         (procs_at_save = procs_at_check \<longrightarrow> seen = status)"
proof -
  obtain a b c d where status:
    "status = [(''data_collector_running'', a), (''technical_analyzer_running'', b),
               (''signal_generator_running'', c), (''notifier_running'', d)]"
    using status_four[OF assms(2)] by blast
  obtain a' b' c' d' where seen:
    "seen = [(''data_collector_running'', a'), (''technical_analyzer_running'', b'),
             (''signal_generator_running'', c'), (''notifier_running'', d')]"
    using status_four[OF assms(1)] by blast
  have ne: "status \<noteq> []" by (simp add: status)
  have calls: "restart_calls (run_monitoring res procs_at_save procs_at_check db_ok now h st) =
      restart_calls st @ not_running status"
    using assms(2) ne
      restart_loop_calls[of h status script_mapping
        "snd (save_status res procs_at_save db_ok now st)"]
    by (simp add: run_monitoring_def check_and_restart_processes_def save_status_calls
        not_running_def)
  have four: "length status = 4" by (simp add: status)
  have count: "length (not_running status) = length (filter (\<lambda>kv. snd kv = 0) status)"
    unfolding status not_running_four by simp
  have dist: "distinct (not_running status)"
    unfolding status not_running_four by simp
  have each: "\<forall>m \<in> set script_mapping.
      (snd m \<in> set (not_running status)) = (dict_get status (fst m) 0 = 0)"
    unfolding status not_running_four by (simp add: script_mapping_def dict_get_def)
  have saved: "save_status (Some r) procs_at_save True now st =
      (True, st\<lparr>system_status := system_status st @
         [\<lparr>sr_timestamp = now, sr_cpu_usage = cpu_usage r,
           sr_memory_usage = memory_usage r, sr_disk_usage = disk_usage r,
           sr_db_size = db_size r,
           data_collector_running = dict_get seen ''data_collector_running'' 0,
           technical_analyzer_running = dict_get seen ''technical_analyzer_running'' 0,
           signal_generator_running = dict_get seen ''signal_generator_running'' 0,
           notifier_running = dict_get seen ''notifier_running'' 0\<rparr>]\<rparr>)"
    using assms(1) by (simp add: save_status_def seen dict_get_def)
  have row: "system_status (run_monitoring (Some r) procs_at_save procs_at_check True now h st) =
      system_status st @
         [\<lparr>sr_timestamp = now, sr_cpu_usage = cpu_usage r,
           sr_memory_usage = memory_usage r, sr_disk_usage = disk_usage r,
           sr_db_size = db_size r,
           data_collector_running = dict_get seen ''data_collector_running'' 0,
           technical_analyzer_running = dict_get seen ''technical_analyzer_running'' 0,
           signal_generator_running = dict_get seen ''signal_generator_running'' 0,
           notifier_running = dict_get seen ''notifier_running'' 0\<rparr>]"
    using assms(2) ne
      restart_loop_calls[of h status script_mapping
        "snd (save_status (Some r) procs_at_save True now st)"]
    by (simp add: run_monitoring_def check_and_restart_processes_def saved)
  have same: "procs_at_save = procs_at_check \<longrightarrow> seen = status"
    using assms by auto
  show ?thesis
    using calls four count dist each row same by blast
qed

lemma demo_check:
  "check_processes demo_procs =
     Some [(''data_collector_running'', 1), (''technical_analyzer_running'', 0),
           (''signal_generator_running'', 0), (''notifier_running'', 0)]"
  by code_simp

theorem supervisor_poll_witness:
  "check_processes demo_procs =
     Some [(''data_collector_running'', 1), (''technical_analyzer_running'', 0),
           (''signal_generator_running'', 0), (''notifier_running'', 0)] \<and>
   restart_calls (run_monitoring (Some demo_resources) demo_procs demo_procs True
       ''2024-01-02 12:00:00'' demo_host idle_supervisor) =
     [''run_technical_analysis.py'', ''run_signal_generator.py'', ''run_notifier.py''] \<and>
   map (\<lambda>row. (data_collector_running row, technical_analyzer_running row,
                signal_generator_running row, notifier_running row))
     (system_status (run_monitoring (Some demo_resources) demo_procs demo_procs True
       ''2024-01-02 12:00:00'' demo_host idle_supervisor)) = [(1, 0, 0, 0)]"
  using supervisor_poll[OF demo_check demo_check, of "Some demo_resources" True
      "''2024-01-02 12:00:00''" demo_host idle_supervisor demo_resources] demo_check
  by (simp add: not_running_four dict_get_def idle_supervisor_def)

end
